theory Spec2Isabelle
  imports Complex_Main "HOL-Library.Multiset" "HOL-Library.Sublist"
begin

section \<open>Token counting of the OpenAI content generator\<close>

text \<open>
  \<^verbatim>\<open>OpenAIContentGenerator.countTokens\<close> walks the normalised contents of a request and
  adds \<^verbatim>\<open>Math.ceil(part.text.length / 4)\<close> for every part whose \<^verbatim>\<open>text\<close> is truthy.
  A \<^verbatim>\<open>Part\<close> is modelled by its optional \<^verbatim>\<open>text\<close> field (the other fields of a part are
  never read by this method), a \<^verbatim>\<open>Content\<close> by its optional \<^verbatim>\<open>parts\<close> array. A JavaScript
  string is a list of UTF-16 code units; a \<open>char\<close> stands for one code unit, so that
  \<open>length\<close> is \<^verbatim>\<open>.length\<close>.
\<close>

record part =
  "text" :: "string option"

record content =
  role :: "string option"
  parts :: "part list option"

text \<open>
  \<^verbatim>\<open>Math.ceil(n / 4)\<close>: the quotient is a real number (the double division by four is
  exact for every string length), rounded up.
\<close>

definition ceil4 :: "nat \<Rightarrow> int" where
  "ceil4 n = \<lceil>real n / 4\<rceil>"

text \<open>The inner loop over \<^verbatim>\<open>content.parts\<close>, threading \<^verbatim>\<open>totalTokens\<close>.\<close>

fun countParts :: "int \<Rightarrow> part list \<Rightarrow> int" where
  "countParts totalTokens [] = totalTokens"
| "countParts totalTokens (p # ps) =
     (case text p of
        None \<Rightarrow> countParts totalTokens ps
      | Some t \<Rightarrow>
          if t \<noteq> [] then countParts (totalTokens + ceil4 (length t)) ps
          else countParts totalTokens ps)"

text \<open>The outer loop over the contents; a content without \<^verbatim>\<open>parts\<close> is passed over.\<close>

fun countContents :: "int \<Rightarrow> content list \<Rightarrow> int" where
  "countContents totalTokens [] = totalTokens"
| "countContents totalTokens (c # cs) =
     (case parts c of
        None \<Rightarrow> countContents totalTokens cs
      | Some ps \<Rightarrow> countContents (countParts totalTokens ps) cs)"

text \<open>
  \<^verbatim>\<open>toContents\<close> lives in \<^verbatim>\<open>code_assist/converter.js\<close>, outside the sources at hand; it is a
  parameter here. It either returns the normalised contents or throws, and whatever is
  thrown inside the \<^verbatim>\<open>try\<close> block is rethrown as \<^verbatim>\<open>Token counting error: ...\<close>; the message
  of the thrown value is \<^verbatim>\<open>Some m\<close> for an \<^verbatim>\<open>Error\<close> and \<^verbatim>\<open>None\<close> for anything else.
\<close>

datatype token_error = TokenCountingError string

definition countTokens ::
  "('req \<Rightarrow> string option + content list) \<Rightarrow> 'req \<Rightarrow> token_error + int" where
  "countTokens toContents request =
     (case toContents request of
        Inl thrown \<Rightarrow>
          Inl (TokenCountingError (''Token counting error: '' @
                 (case thrown of Some m \<Rightarrow> m | None \<Rightarrow> ''Unknown error'')))
      | Inr contents \<Rightarrow> Inr (countContents 0 contents))"

text \<open>
  The sum the method is meant to compute, written without the loops: every part of every
  content that carries a \<^verbatim>\<open>text\<close> field, and for each of them the rounded-up quarter of its
  length.
\<close>

definition allParts :: "content list \<Rightarrow> part list" where
  "allParts cs = concat (map (\<lambda>c. case parts c of None \<Rightarrow> [] | Some ps \<Rightarrow> ps) cs)"

definition textLengths :: "content list \<Rightarrow> nat list" where
  "textLengths cs = map length (List.map_filter text (allParts cs))"

section \<open>The transcript and the pending entry\<close>

text \<open>
  The hook \<^verbatim>\<open>useGeminiStream\<close> keeps its mutable state in React refs and in the history
  manager. The part of it that the stream handlers read and write is collected in one
  record, passed in and returned by every handler:
  \<^item> \<open>history\<close>: the items handed to \<^verbatim>\<open>addItem\<close>, in call order (the timestamp argument of
    \<^verbatim>\<open>addItem\<close> is not kept);
  \<^item> \<open>pendingHistoryItem\<close>: \<^verbatim>\<open>pendingHistoryItemRef.current\<close>, which \<^verbatim>\<open>setPendingHistoryItem\<close>
    sets at once (\<^verbatim>\<open>useStateAndRef\<close>);
  \<^item> \<open>turnCancelled\<close>: \<^verbatim>\<open>turnCancelledRef.current\<close>;
  \<^item> \<open>thought\<close>, \<open>isResponding\<close>: the React states of the same names;
  \<^item> \<open>loopDetected\<close>: \<^verbatim>\<open>loopDetectedRef.current\<close>.
  The type of a thought summary is declared in the core package and is a type parameter.
\<close>

datatype item_type = Gemini | GeminiContent | UserMessage | Info | ErrorMessage | ToolGroup

datatype display_status = DPending | DConfirming | DExecuting | DSuccess | DError | DCanceled

text \<open>
  A tool of a \<^verbatim>\<open>tool_group\<close> item: only its status is ever rewritten here, the other
  display fields travel with the spread and are left out.
\<close>

record tool_display =
  toolCallId :: string
  toolStatus :: display_status

text \<open>
  A history item without id. \<open>itype\<close> and \<open>itext\<close> are the fields \<^verbatim>\<open>type\<close> and \<^verbatim>\<open>text\<close>;
  \<open>None\<close> is JavaScript's \<^verbatim>\<open>undefined\<close> (an item built from \<^verbatim>\<open>item?.type\<close> when nothing is
  pending has no type, a tool group has no text).
\<close>

record history_item =
  itype :: "item_type option"
  itext :: "string option"
  tools :: "tool_display list"

record 'th ui_state =
  history :: "history_item list"
  pendingHistoryItem :: "history_item option"
  turnCancelled :: bool
  thought :: "'th option"
  isResponding :: bool
  loopDetected :: bool

definition addItem :: "history_item \<Rightarrow> 'th ui_state \<Rightarrow> 'th ui_state" where
  "addItem item st = st\<lparr>history := history st @ [item]\<rparr>"

definition setPendingHistoryItem :: "history_item option \<Rightarrow> 'th ui_state \<Rightarrow> 'th ui_state" where
  "setPendingHistoryItem item st = st\<lparr>pendingHistoryItem := item\<rparr>"

definition textItem :: "item_type option \<Rightarrow> string \<Rightarrow> history_item" where
  "textItem ty t = \<lparr>itype = ty, itext = Some t, tools = []\<rparr>"

text \<open>\<^verbatim>\<open>pendingHistoryItemRef.current?.type\<close> and \<^verbatim>\<open>pendingHistoryItemRef.current?.text || ''\<close>.\<close>

definition pendingType :: "'th ui_state \<Rightarrow> item_type option" where
  "pendingType st = (case pendingHistoryItem st of None \<Rightarrow> None | Some p \<Rightarrow> itype p)"

definition pendingText :: "'th ui_state \<Rightarrow> string" where
  "pendingText st =
     (case pendingHistoryItem st of
        None \<Rightarrow> []
      | Some p \<Rightarrow> (case itext p of None \<Rightarrow> [] | Some t \<Rightarrow> t))"

text \<open>\<^verbatim>\<open>s.endsWith(c)\<close> for a one-character \<^verbatim>\<open>c\<close>.\<close>

definition endsWith :: "string \<Rightarrow> char \<Rightarrow> bool" where
  "endsWith s c = (case rev s of [] \<Rightarrow> False | x # _ \<Rightarrow> x = c)"

section \<open>The content reassembler: \<^verbatim>\<open>handleContentEvent\<close>\<close>

text \<open>
  Lines 418 to 429: unless the pending item is a \<^verbatim>\<open>gemini\<close> or \<^verbatim>\<open>gemini_content\<close> item, a
  pending item of another kind is appended to the history and an empty \<^verbatim>\<open>gemini\<close> item
  becomes the pending one.
\<close>

definition openGeminiItem :: "'th ui_state \<Rightarrow> 'th ui_state" where
  "openGeminiItem st =
     (if pendingType st \<noteq> Some Gemini \<and> pendingType st \<noteq> Some GeminiContent then
        setPendingHistoryItem (Some (textItem (Some Gemini) []))
          (case pendingHistoryItem st of None \<Rightarrow> st | Some p \<Rightarrow> addItem p st)
      else st)"

text \<open>
  Lines 432 to 480. \<^verbatim>\<open>findLastSafeSplitPoint\<close> comes from \<^verbatim>\<open>utils/markdownUtilities.js\<close>,
  outside the sources at hand, and is a parameter; it returns an index into its argument.
  \<^verbatim>\<open>substring(0, k)\<close> and \<^verbatim>\<open>substring(k)\<close> are \<open>take k\<close> and \<open>drop k\<close>, also for a \<open>k\<close> beyond
  the end. The result is the buffer the handler returns, with the new state.
\<close>

definition splitAndUpdate ::
  "(string \<Rightarrow> nat) \<Rightarrow> string \<Rightarrow> 'th ui_state \<Rightarrow> string \<times> 'th ui_state" where
  "splitAndUpdate findLastSafeSplitPoint newGeminiMessageBuffer st =
     (let splitPoint = findLastSafeSplitPoint newGeminiMessageBuffer;
          currentText = pendingText st
      in if splitPoint = length newGeminiMessageBuffer then
           (let contentDiff = int (length newGeminiMessageBuffer) - int (length currentText);
                shouldUpdate =
                  (currentText \<noteq> newGeminiMessageBuffer \<and>
                   (contentDiff > 5 \<or> endsWith newGeminiMessageBuffer CHR '' '' \<or>
                    endsWith newGeminiMessageBuffer CHR ''.'' \<or>
                    endsWith newGeminiMessageBuffer CHR ''!'' \<or>
                    endsWith newGeminiMessageBuffer CHR ''?''))
            in (newGeminiMessageBuffer,
                if shouldUpdate then
                  setPendingHistoryItem
                    (Some (textItem (pendingType st) newGeminiMessageBuffer)) st
                else st))
         else
           (let beforeText = take splitPoint newGeminiMessageBuffer;
                afterText = drop splitPoint newGeminiMessageBuffer
            in (afterText,
                setPendingHistoryItem (Some (textItem (Some GeminiContent) afterText))
                  (if beforeText \<noteq> [] \<and> beforeText \<noteq> currentText then
                     addItem (textItem (pendingType st) beforeText) st
                   else st))))"

text \<open>
  Lines 380 to 413, then the two steps above. \<^verbatim>\<open>eventValue.startsWith(buffer)\<close> is
  \<open>prefix buffer eventValue\<close>.
\<close>

definition handleContentEvent ::
  "(string \<Rightarrow> nat) \<Rightarrow> string \<Rightarrow> string \<Rightarrow> 'th ui_state \<Rightarrow> string \<times> 'th ui_state" where
  "handleContentEvent findLastSafeSplitPoint eventValue currentGeminiMessageBuffer st =
     (if turnCancelled st then ([], st)
      else if eventValue = [] then (currentGeminiMessageBuffer, st)
      else
        (let newGeminiMessageBuffer =
               (if prefix currentGeminiMessageBuffer eventValue then eventValue
                else currentGeminiMessageBuffer @ eventValue)
         in if newGeminiMessageBuffer = currentGeminiMessageBuffer then
              (currentGeminiMessageBuffer, st)
            else splitAndUpdate findLastSafeSplitPoint newGeminiMessageBuffer
                   (openGeminiItem st)))"


text \<open>
  What the backend meant by a fragment is not visible to the handler. For stating what a
  sequence of fragments should add up to, a fragment is tagged as an incremental delta
  or as a snapshot of the whole message so far; \<open>payload\<close> is what the handler receives
  and \<open>intended\<close> the text of the message after the fragment.
\<close>

datatype fragment = Delta string | Snapshot string







text \<open>
  The contract of the reassembler in the words of its description: an empty fragment
  leaves the buffer, a fragment that starts with the buffer replaces it, any other
  fragment is appended.
\<close>

definition specApply :: "string \<Rightarrow> string \<Rightarrow> string" where
  "specApply buffer fragment =
     (if fragment = [] then buffer
      else if prefix buffer fragment then fragment
      else buffer @ fragment)"




definition freshState :: "'th ui_state" where
  "freshState = \<lparr>history = [], pendingHistoryItem = None, turnCancelled = False,
     thought = None, isResponding = True, loopDetected = False\<rparr>"


section \<open>The stream event dispatcher: \<^verbatim>\<open>processGeminiStreamEvents\<close>\<close>

text \<open>
  The events of the backend. The payloads of \<^verbatim>\<open>tool_call_confirmation\<close> and
  \<^verbatim>\<open>tool_call_response\<close> events are never read and are left out; the types of a thought
  summary and of a structured API error are declared in the core package and are type
  parameters. The arguments of a tool call are a JSON object.
\<close>

datatype json =
  JNull | JBool bool | JNum int | JStr string | JArr "json list" | JObj "(string \<times> json) list"

record tool_call_request =
  callId :: string
  name :: string
  args :: "(string \<times> json) list"
  isClientInitiated :: bool
  prompt_id :: string

datatype finish_reason =
  FINISH_REASON_UNSPECIFIED | STOP | MAX_TOKENS | SAFETY | RECITATION | LANGUAGE
  | BLOCKLIST | PROHIBITED_CONTENT | SPII | OTHER | MALFORMED_FUNCTION_CALL
  | IMAGE_SAFETY | UNEXPECTED_TOOL_CALL

record compression_info =
  originalTokenCount :: "nat option"
  newTokenCount :: "nat option"

datatype ('th, 'e) event =
  Thought 'th
  | Content string
  | ToolCallRequest tool_call_request
  | UserCancelled
  | Error 'e
  | ChatCompressed "compression_info option"
  | ToolCallConfirmation
  | ToolCallResponse
  | MaxSessionTurns
  | Finished finish_reason
  | LoopDetected

datatype event_type =
  TThought | TContent | TToolCallRequest | TUserCancelled | TError | TChatCompressed
  | TToolCallConfirmation | TToolCallResponse | TMaxSessionTurns | TFinished | TLoopDetected

fun eventType :: "('th, 'e) event \<Rightarrow> event_type" where
  "eventType (Thought _) = TThought"
| "eventType (Content _) = TContent"
| "eventType (ToolCallRequest _) = TToolCallRequest"
| "eventType UserCancelled = TUserCancelled"
| "eventType (Error _) = TError"
| "eventType (ChatCompressed _) = TChatCompressed"
| "eventType ToolCallConfirmation = TToolCallConfirmation"
| "eventType ToolCallResponse = TToolCallResponse"
| "eventType MaxSessionTurns = TMaxSessionTurns"
| "eventType (Finished _) = TFinished"
| "eventType LoopDetected = TLoopDetected"

text \<open>
  What the dispatcher and its handlers take from outside the sources at hand:
  \<^item> \<open>findLastSafeSplitPoint\<close>, of \<^verbatim>\<open>utils/markdownUtilities.js\<close>;
  \<^item> \<open>typeName\<close>: the string values of the enumeration \<^verbatim>\<open>ServerGeminiEventType\<close>;
  \<^item> \<open>formatApiError\<close>: \<^verbatim>\<open>parseAndFormatApiError\<close> applied to an error, with the configuration's
    arguments;
  \<^item> \<open>getModel\<close>, \<open>getMaxSessionTurns\<close>: the configuration's values as they print in a template;
  \<^item> \<open>warningSign\<close>: the two code units of the warning sign that starts a finish notice.
\<close>

record 'e collab =
  findLastSafeSplitPoint :: "string \<Rightarrow> nat"
  typeName :: "event_type \<Rightarrow> string"
  formatApiError :: "'e \<Rightarrow> string"
  getModel :: string
  getMaxSessionTurns :: string
  warningSign :: string

text \<open>A number in a template string: a natural number prints in decimal.\<close>

definition digitChar :: "nat \<Rightarrow> char" where
  "digitChar d = char_of (48 + d)"

function dec :: "nat \<Rightarrow> string" where
  "dec n = (if n < 10 then [digitChar n] else dec (n div 10) @ [digitChar (n mod 10)])"
  by pat_completeness auto
termination
  by (relation "measure id") auto

declare dec.simps [simp del]

text \<open>
  An event as the loop meets it, with what \<^verbatim>\<open>Date.now()\<close> and \<^verbatim>\<open>Math.random()\<close> give at that
  moment (the latter as it prints).
\<close>

record ('th, 'e) delivery =
  event :: "('th, 'e) event"
  now :: nat
  random :: string

text \<open>
  Lines 652 to 655: the identity of an event. For a content event the type, the length
  and \<^verbatim>\<open>value.slice(-10)\<close>; for any other event the type, the clock and a random number.
\<close>

definition eventId :: "'e collab \<Rightarrow> ('th, 'e) delivery \<Rightarrow> string" where
  "eventId c d =
     (case event d of
        Content v \<Rightarrow>
          typeName c TContent @ ''-'' @ dec (length v) @ ''-'' @ drop (length v - 10) v
      | _ \<Rightarrow> typeName c (eventType (event d)) @ ''-'' @ dec (now d) @ ''-'' @ random d)"

text \<open>The handlers of the other events, lines 485 to 622.\<close>

definition cancelTool :: "tool_display \<Rightarrow> tool_display" where
  "cancelTool tool =
     (if toolStatus tool = DPending \<or> toolStatus tool = DConfirming \<or>
         toolStatus tool = DExecuting
      then tool\<lparr>toolStatus := DCanceled\<rparr> else tool)"

definition handleUserCancelledEvent :: "'th ui_state \<Rightarrow> 'th ui_state" where
  "handleUserCancelledEvent st =
     (if turnCancelled st then st
      else
        (let st1 =
               (case pendingHistoryItem st of
                  None \<Rightarrow> st
                | Some p \<Rightarrow>
                    setPendingHistoryItem None
                      (if itype p = Some ToolGroup
                       then addItem (p\<lparr>tools := map cancelTool (tools p)\<rparr>) st
                       else addItem p st))
         in (addItem (textItem (Some Info) ''User cancelled the request.'') st1)
              \<lparr>isResponding := False, thought := None\<rparr>))"

definition handleErrorEvent :: "'e collab \<Rightarrow> 'e \<Rightarrow> 'th ui_state \<Rightarrow> 'th ui_state" where
  "handleErrorEvent c eventValue st =
     (let st1 =
            (case pendingHistoryItem st of
               None \<Rightarrow> st
             | Some p \<Rightarrow> setPendingHistoryItem None (addItem p st))
      in (addItem (textItem (Some ErrorMessage) (formatApiError c eventValue)) st1)
           \<lparr>thought := None\<rparr>)"

fun finishReasonMessages :: "finish_reason \<Rightarrow> string option" where
  "finishReasonMessages FINISH_REASON_UNSPECIFIED = None"
| "finishReasonMessages STOP = None"
| "finishReasonMessages MAX_TOKENS = Some ''Response truncated due to token limits.''"
| "finishReasonMessages SAFETY = Some ''Response stopped due to safety reasons.''"
| "finishReasonMessages RECITATION = Some ''Response stopped due to recitation policy.''"
| "finishReasonMessages LANGUAGE = Some ''Response stopped due to unsupported language.''"
| "finishReasonMessages BLOCKLIST = Some ''Response stopped due to forbidden terms.''"
| "finishReasonMessages PROHIBITED_CONTENT = Some ''Response stopped due to prohibited content.''"
| "finishReasonMessages SPII =
     Some ''Response stopped due to sensitive personally identifiable information.''"
| "finishReasonMessages OTHER = Some ''Response stopped for other reasons.''"
| "finishReasonMessages MALFORMED_FUNCTION_CALL =
     Some ''Response stopped due to malformed function call.''"
| "finishReasonMessages IMAGE_SAFETY = Some ''Response stopped due to image safety violations.''"
| "finishReasonMessages UNEXPECTED_TOOL_CALL =
     Some ''Response stopped due to unexpected tool call.''"

definition handleFinishedEvent ::
  "'e collab \<Rightarrow> finish_reason \<Rightarrow> 'th ui_state \<Rightarrow> 'th ui_state" where
  "handleFinishedEvent c finishReason st =
     (case finishReasonMessages finishReason of
        None \<Rightarrow> st
      | Some message \<Rightarrow>
          if message \<noteq> [] then
            addItem (textItem (Some Info) (warningSign c @ ''  '' @ message)) st
          else st)"

definition tokenCountText :: "nat option \<Rightarrow> string" where
  "tokenCountText n = (case n of None \<Rightarrow> ''unknown'' | Some k \<Rightarrow> dec k)"

definition handleChatCompressionEvent ::
  "'e collab \<Rightarrow> compression_info option \<Rightarrow> 'th ui_state \<Rightarrow> 'th ui_state" where
  "handleChatCompressionEvent c eventValue st =
     addItem (textItem (Some Info)
       (''IMPORTANT: This conversation approached the input token limit for '' @ getModel c @
        ''. A compressed context will be sent for future messages (compressed from: '' @
        tokenCountText (case eventValue of None \<Rightarrow> None | Some i \<Rightarrow> originalTokenCount i) @
        '' to '' @
        tokenCountText (case eventValue of None \<Rightarrow> None | Some i \<Rightarrow> newTokenCount i) @
        '' tokens).'')) st"

definition handleMaxSessionTurnsEvent :: "'e collab \<Rightarrow> 'th ui_state \<Rightarrow> 'th ui_state" where
  "handleMaxSessionTurnsEvent c st =
     addItem (textItem (Some Info)
       (''The session has reached the maximum number of turns: '' @ getMaxSessionTurns c @
        ''. Please update this limit in your setting.json file.'')) st"

text \<open>
  The local variables of \<^verbatim>\<open>processGeminiStreamEvents\<close> together with the state of the hook.
\<close>

record 'th stream_state =
  geminiMessageBuffer :: string
  toolCallRequests :: "tool_call_request list"
  processedEventIds :: "string set"
  ui :: "'th ui_state"

text \<open>
  One iteration of the loop, lines 637 to 733: an event whose identity has been seen is
  skipped; otherwise its identity is recorded and the event is routed by its type.
\<close>

definition processEvent ::
  "'e collab \<Rightarrow> ('th, 'e) delivery \<Rightarrow> 'th stream_state \<Rightarrow> 'th stream_state" where
  "processEvent c d s =
     (if eventId c d \<in> processedEventIds s then s
      else
        (let s1 = s\<lparr>processedEventIds := insert (eventId c d) (processedEventIds s)\<rparr>
         in case event d of
              Thought v \<Rightarrow> s1\<lparr>ui := (ui s1)\<lparr>thought := Some v\<rparr>\<rparr>
            | Content v \<Rightarrow>
                (case handleContentEvent (findLastSafeSplitPoint c) v
                        (geminiMessageBuffer s1) (ui s1) of
                   (buf, u) \<Rightarrow> s1\<lparr>geminiMessageBuffer := buf, ui := u\<rparr>)
            | ToolCallRequest v \<Rightarrow>
                (case find (\<lambda>req. callId req = callId v) (toolCallRequests s1) of
                   None \<Rightarrow> s1\<lparr>toolCallRequests := toolCallRequests s1 @ [v]\<rparr>
                 | Some existingRequest \<Rightarrow> s1)
            | UserCancelled \<Rightarrow> s1\<lparr>ui := handleUserCancelledEvent (ui s1)\<rparr>
            | Error v \<Rightarrow> s1\<lparr>ui := handleErrorEvent c v (ui s1)\<rparr>
            | ChatCompressed v \<Rightarrow> s1\<lparr>ui := handleChatCompressionEvent c v (ui s1)\<rparr>
            | ToolCallConfirmation \<Rightarrow> s1
            | ToolCallResponse \<Rightarrow> s1
            | MaxSessionTurns \<Rightarrow> s1\<lparr>ui := handleMaxSessionTurnsEvent c (ui s1)\<rparr>
            | Finished v \<Rightarrow> s1\<lparr>ui := handleFinishedEvent c v (ui s1)\<rparr>
            | LoopDetected \<Rightarrow> s1\<lparr>ui := (ui s1)\<lparr>loopDetected := True\<rparr>\<rparr>))"

fun processEvents ::
  "'e collab \<Rightarrow> ('th, 'e) delivery list \<Rightarrow> 'th stream_state \<Rightarrow> 'th stream_state" where
  "processEvents c [] s = s"
| "processEvents c (d # ds) s = processEvents c ds (processEvent c d s)"

datatype StreamProcessingStatus = Completed | UserCancelledStatus | ErrorStatus

text \<open>
  The whole function, for the finite sequence of events that the stream delivers: the
  status returned, the requests handed to \<^verbatim>\<open>scheduleToolCalls\<close> (if any), and the state of
  the hook.
\<close>

definition initialStreamState :: "'th ui_state \<Rightarrow> 'th stream_state" where
  "initialStreamState st =
     \<lparr>geminiMessageBuffer = [], toolCallRequests = [], processedEventIds = {}, ui = st\<rparr>"

definition processGeminiStreamEvents ::
  "'e collab \<Rightarrow> ('th, 'e) delivery list \<Rightarrow> 'th ui_state \<Rightarrow>
     StreamProcessingStatus \<times> tool_call_request list option \<times> 'th ui_state" where
  "processGeminiStreamEvents c stream st =
     (let s = processEvents c stream (initialStreamState st)
      in (Completed,
          if length (toolCallRequests s) > 0 then Some (toolCallRequests s) else None,
          ui s))"

text \<open>Lines 196 to 224: the user's cancellation of the request in progress.\<close>

datatype StreamingState = Idle | Responding | WaitingForConfirmation

definition cancelOngoingRequest :: "StreamingState \<Rightarrow> 'th ui_state \<Rightarrow> 'th ui_state" where
  "cancelOngoingRequest streamingState st =
     (if streamingState \<noteq> Responding then st
      else if turnCancelled st then st
      else
        (let st1 = st\<lparr>turnCancelled := True\<rparr>;
             st2 = (case pendingHistoryItem st1 of None \<Rightarrow> st1 | Some p \<Rightarrow> addItem p st1);
             st3 = addItem (textItem (Some Info) ''Request cancelled.'') st2
         in (setPendingHistoryItem None st3)\<lparr>isResponding := False\<rparr>))"

text \<open>
  Sample collaborators for running the dispatcher on concrete events: text is never
  split, and the event types print under their usual names.
\<close>

fun sampleTypeName :: "event_type \<Rightarrow> string" where
  "sampleTypeName TThought = ''thought''"
| "sampleTypeName TContent = ''content''"
| "sampleTypeName TToolCallRequest = ''tool_call_request''"
| "sampleTypeName TUserCancelled = ''user_cancelled''"
| "sampleTypeName TError = ''error''"
| "sampleTypeName TChatCompressed = ''chat_compressed''"
| "sampleTypeName TToolCallConfirmation = ''tool_call_confirmation''"
| "sampleTypeName TToolCallResponse = ''tool_call_response''"
| "sampleTypeName TMaxSessionTurns = ''max_session_turns''"
| "sampleTypeName TFinished = ''finished''"
| "sampleTypeName TLoopDetected = ''loop_detected''"

definition sampleCollab :: "string collab" where
  "sampleCollab =
     \<lparr>findLastSafeSplitPoint = length, typeName = sampleTypeName,
      formatApiError = (\<lambda>e. ''[API Error: '' @ e @ '']''), getModel = ''gemini-2.5-pro'',
      getMaxSessionTurns = ''100'', warningSign = ''(!)''\<rparr>"

section \<open>Submission of tool results: \<^verbatim>\<open>handleCompletedTools\<close>\<close>

text \<open>
  A tracked tool call, as the scheduler hands it over. \<open>responseParts\<close> is
  \<^verbatim>\<open>response?.responseParts\<close>: \<open>None\<close> when the response or its parts are undefined; the parts
  are a list (\<^verbatim>\<open>flatMap\<close> spreads an array and keeps a single part as it is). A part is a
  JSON object.
\<close>

datatype call_status =
  CallScheduled | CallValidating | CallAwaitingApproval | CallExecuting
  | CallSuccess | CallError | CallCancelled

record tracked_tool_call =
  request :: tool_call_request
  status :: call_status
  responseParts :: "json list option"
  responseSubmittedToGemini :: bool

record client_content =
  contentRole :: string
  contentParts :: "json list"

text \<open>
  What the closure of \<^verbatim>\<open>handleCompletedTools\<close> captured at the render that made it: the
  React state \<^verbatim>\<open>isResponding\<close>, the flag \<^verbatim>\<open>modelSwitchedFromQuotaError\<close>, and whether
  \<^verbatim>\<open>geminiClient\<close> is there (the code tests it).
\<close>

record render =
  renderIsResponding :: bool
  modelSwitchedFromQuotaError :: bool
  geminiClientPresent :: bool

text \<open>
  The two refs of the submission lock, the set of memory tools already processed, and
  the calls made on the collaborators, in order: \<open>displayed\<close> for
  \<^verbatim>\<open>addItem(mapToDisplay(batch))\<close>, \<open>submitted\<close> for \<^verbatim>\<open>markToolsAsSubmitted\<close>, \<open>historyAdded\<close> for
  \<^verbatim>\<open>geminiClient.addHistory\<close>, \<open>memoryRefreshes\<close> for \<^verbatim>\<open>performMemoryRefresh\<close>, \<open>continuations\<close>
  for \<^verbatim>\<open>submitQuery(responses, {isContinuation: true}, prompt_ids[0])\<close>, and \<open>timers\<close> for the
  callbacks given to \<^verbatim>\<open>setTimeout\<close> that have not run yet, each with the closure that will
  run it.
\<close>

record submission_state =
  toolSubmissionInProgress :: bool
  pendingToolSubmission :: "tracked_tool_call list option"
  processedMemoryTools :: "string set"
  displayed :: "tracked_tool_call list list"
  submitted :: "string list list"
  historyAdded :: "client_content list"
  memoryRefreshes :: nat
  continuations :: "(json list \<times> string option) list"
  timers :: "(render \<times> tracked_tool_call list) list"

definition markToolsAsSubmitted :: "string list \<Rightarrow> submission_state \<Rightarrow> submission_state" where
  "markToolsAsSubmitted callIds st = st\<lparr>submitted := submitted st @ [callIds]\<rparr>"

definition addHistory :: "client_content \<Rightarrow> submission_state \<Rightarrow> submission_state" where
  "addHistory c st = st\<lparr>historyAdded := historyAdded st @ [c]\<rparr>"

text \<open>Lines 902 to 922: terminal calls whose response parts are defined.\<close>

definition readyToSubmit :: "tracked_tool_call \<Rightarrow> bool" where
  "readyToSubmit tc =
     ((status tc = CallSuccess \<or> status tc = CallError \<or> status tc = CallCancelled) \<and>
      responseParts tc \<noteq> None)"

definition partsOf :: "tracked_tool_call \<Rightarrow> json list" where
  "partsOf tc = (case responseParts tc of None \<Rightarrow> [] | Some ps \<Rightarrow> ps)"

definition geminiToolsOf :: "tracked_tool_call list \<Rightarrow> tracked_tool_call list" where
  "geminiToolsOf batch =
     filter (\<lambda>t. \<not> isClientInitiated (request t)) (filter readyToSubmit batch)"

text \<open>
  \<^verbatim>\<open>handleCompletedTools\<close> is asynchronous with one suspension point, the
  \<^verbatim>\<open>await submitQuery(...)\<close> of line 1006. \<open>handleCompletedTools_start\<close> is the function up to
  that point (lines 883 to 1012): it returns at the guard (\<open>Skipped\<close>), returns before any
  continuation (\<open>Returned\<close>), or issues the continuation and waits for it (\<open>Suspended\<close>).
  \<open>handleCompletedTools_finally\<close> is the \<^verbatim>\<open>finally\<close> block (lines 1013 to 1029), which runs
  when the continuation has settled, normally or with an exception.
\<close>

datatype pass_outcome = Skipped | Returned | Suspended

definition handleCompletedTools_start ::
  "render \<Rightarrow> tracked_tool_call list \<Rightarrow> submission_state \<Rightarrow> pass_outcome \<times> submission_state" where
  "handleCompletedTools_start r completedToolCallsFromScheduler st =
     (if renderIsResponding r \<or> toolSubmissionInProgress st then (Skipped, st)
      else
        (let st1 = st\<lparr>toolSubmissionInProgress := True\<rparr>;
             completedAndReadyToSubmitTools = filter readyToSubmit completedToolCallsFromScheduler;
             clientTools =
               filter (\<lambda>t. isClientInitiated (request t)) completedAndReadyToSubmitTools;
             st2 = (if length clientTools > 0
                    then markToolsAsSubmitted (map (\<lambda>t. callId (request t)) clientTools) st1
                    else st1);
             newSuccessfulMemorySaves =
               filter (\<lambda>t. name (request t) = ''save_memory'' \<and> status t = CallSuccess \<and>
                            callId (request t) \<notin> processedMemoryTools st2)
                 completedAndReadyToSubmitTools;
             st3 = (if length newSuccessfulMemorySaves > 0
                    then st2\<lparr>memoryRefreshes := memoryRefreshes st2 + 1,
                             processedMemoryTools := processedMemoryTools st2 \<union>
                               set (map (\<lambda>t. callId (request t)) newSuccessfulMemorySaves)\<rparr>
                    else st2);
             geminiTools =
               filter (\<lambda>t. \<not> isClientInitiated (request t)) completedAndReadyToSubmitTools
         in if length geminiTools = 0 then (Returned, st3)
            else if list_all (\<lambda>tc. status tc = CallCancelled) geminiTools then
              (Returned,
               markToolsAsSubmitted (map (\<lambda>t. callId (request t)) geminiTools)
                 (if geminiClientPresent r
                  then addHistory
                         \<lparr>contentRole = ''user'', contentParts = concat (map partsOf geminiTools)\<rparr>
                         st3
                  else st3))
            else
              (let responsesToSend = concat (map partsOf geminiTools);
                   callIdsToMarkAsSubmitted = map (\<lambda>t. callId (request t)) geminiTools;
                   prompt_ids = map (\<lambda>t. prompt_id (request t)) geminiTools;
                   st4 = markToolsAsSubmitted callIdsToMarkAsSubmitted st3
               in if modelSwitchedFromQuotaError r then (Returned, st4)
                  else
                    (Suspended,
                     st4\<lparr>continuations := continuations st4 @
                           [(responsesToSend,
                             case prompt_ids of [] \<Rightarrow> None | p # _ \<Rightarrow> Some p)]\<rparr>))))"

definition handleCompletedTools_finally :: "render \<Rightarrow> submission_state \<Rightarrow> submission_state" where
  "handleCompletedTools_finally r st =
     (let st1 = st\<lparr>toolSubmissionInProgress := False\<rparr>
      in case pendingToolSubmission st1 of
           None \<Rightarrow> st1
         | Some pendingTools \<Rightarrow>
             st1\<lparr>pendingToolSubmission := None, timers := timers st1 @ [(r, pendingTools)]\<rparr>)"

text \<open>
  Lines 111 to 144, the completion callback given to the tool scheduler: \<open>None\<close> when no
  pass is attempted (an empty batch, or a batch put into the pending slot), otherwise the
  outcome of the pass.
\<close>

definition onComplete ::
  "render \<Rightarrow> tracked_tool_call list \<Rightarrow> submission_state \<Rightarrow>
     pass_outcome option \<times> submission_state" where
  "onComplete r completedToolCallsFromScheduler st =
     (if length completedToolCallsFromScheduler > 0 then
        (let st1 = st\<lparr>displayed := displayed st @ [completedToolCallsFromScheduler]\<rparr>
         in if toolSubmissionInProgress st1 then
              (None, st1\<lparr>pendingToolSubmission := Some completedToolCallsFromScheduler\<rparr>)
            else
              (case handleCompletedTools_start r completedToolCallsFromScheduler st1 of
                 (out, st2) \<Rightarrow> (Some out, st2)))
      else (None, st))"

text \<open>
  The interleaving of these pieces on the event loop. Between two of its steps nothing
  of the hook runs. A step is the arrival of a settled batch (the scheduler calls
  \<open>onComplete\<close>, with the closure of some render), the settling of the continuation that a
  suspended pass waits for, or the firing of the oldest timer. Besides the state above,
  the machine remembers the passes that are suspended and, for the statements below, the
  batches for which a pass was begun (\<open>started\<close>: the guard was passed and the lock taken).
\<close>

record machine =
  sub :: submission_state
  suspended :: "(render \<times> tracked_tool_call list) list"
  started :: "tracked_tool_call list list"

datatype action = Settled render "tracked_tool_call list" | ContinuationDone | TimerFired

definition notePass ::
  "render \<Rightarrow> tracked_tool_call list \<Rightarrow> pass_outcome \<Rightarrow> machine \<Rightarrow> machine" where
  "notePass r batch out m =
     (case out of
        Skipped \<Rightarrow> m
      | Returned \<Rightarrow> m\<lparr>started := started m @ [batch]\<rparr>
      | Suspended \<Rightarrow> m\<lparr>started := started m @ [batch], suspended := suspended m @ [(r, batch)]\<rparr>)"

definition step :: "action \<Rightarrow> machine \<Rightarrow> machine" where
  "step a m =
     (case a of
        Settled r batch \<Rightarrow>
          (case onComplete r batch (sub m) of
             (None, st) \<Rightarrow> m\<lparr>sub := st\<rparr>
           | (Some out, st) \<Rightarrow> notePass r batch out (m\<lparr>sub := st\<rparr>))
      | ContinuationDone \<Rightarrow>
          (case suspended m of
             [] \<Rightarrow> m
           | (r, batch) # rest \<Rightarrow>
               m\<lparr>suspended := rest, sub := handleCompletedTools_finally r (sub m)\<rparr>)
      | TimerFired \<Rightarrow>
          (case timers (sub m) of
             [] \<Rightarrow> m
           | (r, pendingTools) # rest \<Rightarrow>
               (case handleCompletedTools_start r pendingTools ((sub m)\<lparr>timers := rest\<rparr>) of
                  (out, st) \<Rightarrow> notePass r pendingTools out (m\<lparr>sub := st\<rparr>))))"

fun run :: "action list \<Rightarrow> machine \<Rightarrow> machine" where
  "run [] m = m"
| "run (a # as) m = run as (step a m)"

definition initialSubmission :: submission_state where
  "initialSubmission =
     \<lparr>toolSubmissionInProgress = False, pendingToolSubmission = None,
      processedMemoryTools = {}, displayed = [], submitted = [], historyAdded = [],
      memoryRefreshes = 0, continuations = [], timers = []\<rparr>"

definition initialMachine :: machine where
  "initialMachine = \<lparr>sub = initialSubmission, suspended = [], started = []\<rparr>"

text \<open>The non-empty batches that arrive in a sequence of steps.\<close>

fun arrived :: "action list \<Rightarrow> tracked_tool_call list list" where
  "arrived [] = []"
| "arrived (Settled r batch # as) = (if batch = [] then arrived as else batch # arrived as)"
| "arrived (a # as) = arrived as"

text \<open>
  The batches the machine holds or has begun: those with a pass begun, the one in the
  pending slot, and those waiting for their timer.
\<close>

definition held :: "machine \<Rightarrow> tracked_tool_call list multiset" where
  "held m =
     mset (started m) + mset (case pendingToolSubmission (sub m) of None \<Rightarrow> [] | Some b \<Rightarrow> [b])
       + mset (map snd (timers (sub m)))"

text \<open>
  The lock discipline: at most one pass is suspended, and while one is, the lock is set.
\<close>

definition lockInv :: "machine \<Rightarrow> bool" where
  "lockInv m =
     (length (suspended m) \<le> 1 \<and> (suspended m = [] \<or> toolSubmissionInProgress (sub m)))"

definition clientToolsOf :: "tracked_tool_call list \<Rightarrow> tracked_tool_call list" where
  "clientToolsOf batch =
     filter (\<lambda>t. isClientInitiated (request t)) (filter readyToSubmit batch)"

text \<open>Sample calls and closures for running the machine on concrete batches.\<close>

definition sampleCall :: "string \<Rightarrow> call_status \<Rightarrow> tracked_tool_call" where
  "sampleCall cid st =
     \<lparr>request = \<lparr>callId = cid, name = ''read_file'', args = [], isClientInitiated = False,
                  prompt_id = ''session########1''\<rparr>,
      status = st,
      responseParts = Some [JObj [(''functionResponse'', JObj [(''id'', JStr cid)])]],
      responseSubmittedToGemini = False\<rparr>"

definition idleRender :: render where
  "idleRender =
     \<lparr>renderIsResponding = False, modelSwitchedFromQuotaError = False,
      geminiClientPresent = True\<rparr>"

definition respondingRender :: render where
  "respondingRender =
     \<lparr>renderIsResponding = True, modelSwitchedFromQuotaError = False,
      geminiClientPresent = True\<rparr>"

section \<open>The checkpoint recorder: \<^verbatim>\<open>saveRestorableToolCalls\<close>\<close>

text \<open>
  The effect of lines 1046 to 1155. What it takes from its surroundings:
  \<^item> the configuration and the storage (\<open>getCheckpointingEnabled\<close>,
    \<open>getProjectTempCheckpointsDir\<close>), the result of \<^verbatim>\<open>fs.mkdir\<close>, whether there is a Git
    service, and the \<^verbatim>\<open>history\<close> argument of the hook as a JSON value (\<open>historyProp\<close>);
  \<^item> Node's \<^verbatim>\<open>path.basename\<close> and \<^verbatim>\<open>path.join\<close>, which are parameters;
  \<^item> for each restorable tool call, what the collaborators answer while it is handled
    (\<open>checkpoint_io\<close>): a promise that rejects is \<open>Inl\<close> with the message, \<^verbatim>\<open>toISOString()\<close>
    is \<open>isoTimestamp\<close>, \<^verbatim>\<open>geminiClient?.getHistory()\<close> is \<open>None\<close> when it gives \<^verbatim>\<open>undefined\<close>,
    and \<open>writeFile\<close> is \<open>None\<close> when the file was written and the message of the error
    otherwise.
  The debug messages are kept by their kind and their data, not as text. The file written
  is kept as its path and the value handed to \<^verbatim>\<open>JSON.stringify\<close>, in which a property
  whose value is \<^verbatim>\<open>undefined\<close> does not appear.
\<close>

datatype mkdir_result = MkdirDone | MkdirExists | MkdirError string

record checkpoint_env =
  getCheckpointingEnabled :: bool
  getProjectTempCheckpointsDir :: "string option"
  mkdir :: mkdir_result
  gitService :: bool
  historyProp :: json
  pathBasename :: "string \<Rightarrow> string"
  pathJoin :: "string \<Rightarrow> string \<Rightarrow> string"

record checkpoint_io =
  createFileSnapshot :: "string + string"
  getCurrentCommitHash :: "string + string"
  isoTimestamp :: string
  getHistory :: "json option"
  writeFile :: "string option"

datatype thrown = GitError string | PathTypeError | WriteError string

datatype debug_notice =
  MkdirFailed string
  | MissingFilePath string
  | GitServiceUnavailable json
  | NewSnapshotFailed string
  | NoCommitHash json
  | CheckpointFailed json thrown

text \<open>JavaScript's truthiness, for \<^verbatim>\<open>!filePath\<close>.\<close>

fun truthy :: "json \<Rightarrow> bool" where
  "truthy JNull = False"
| "truthy (JBool b) = b"
| "truthy (JNum n) = (n \<noteq> 0)"
| "truthy (JStr s) = (s \<noteq> [])"
| "truthy (JArr xs) = True"
| "truthy (JObj kvs) = True"

text \<open>\<^verbatim>\<open>.replace(/:/g, '-').replace(/\./g, '_')\<close> on the ISO timestamp.\<close>

definition fileTimestamp :: "string \<Rightarrow> string" where
  "fileTimestamp isoString =
     map (\<lambda>c. if c = CHR ''.'' then CHR ''_'' else c)
       (map (\<lambda>c. if c = CHR '':'' then CHR ''-'' else c) isoString)"

text \<open>The object literal of lines 1131 to 1140.\<close>

definition checkpointRecord ::
  "json \<Rightarrow> json option \<Rightarrow> tool_call_request \<Rightarrow> string \<Rightarrow> string \<Rightarrow> json" where
  "checkpointRecord hist clientHistory req commitHash filePath =
     JObj ([(''history'', hist)] @
           (case clientHistory of None \<Rightarrow> [] | Some ch \<Rightarrow> [(''clientHistory'', ch)]) @
           [(''toolCall'', JObj [(''name'', JStr (name req)), (''args'', JObj (args req))]),
            (''commitHash'', JStr commitHash),
            (''filePath'', JStr filePath)])"

text \<open>
  The body of the loop, lines 1077 to 1151, for one restorable tool call: the debug
  messages, and the file written if any. An undefined commit hash is the empty string
  (both are falsy). \<^verbatim>\<open>path.basename\<close> throws on a \<^verbatim>\<open>file_path\<close> that is not a string.
\<close>

definition checkpointToolCall ::
  "checkpoint_env \<Rightarrow> string \<Rightarrow> checkpoint_io \<Rightarrow> tracked_tool_call \<Rightarrow>
     debug_notice list \<times> (string \<times> json) option" where
  "checkpointToolCall env checkpointDir io toolCall =
     (case map_of (args (request toolCall)) ''file_path'' of
        None \<Rightarrow> ([MissingFilePath (name (request toolCall))], None)
      | Some filePath \<Rightarrow>
          if \<not> truthy filePath then ([MissingFilePath (name (request toolCall))], None)
          else if \<not> gitService env then ([GitServiceUnavailable filePath], None)
          else
            (case (case createFileSnapshot io of
                     Inl e \<Rightarrow> ([NewSnapshotFailed e], [])
                   | Inr h \<Rightarrow> ([], h)) of
               (notices, snapshotHash) \<Rightarrow>
                 (case (if snapshotHash = [] then getCurrentCommitHash io
                        else Inr snapshotHash) of
                    Inl e \<Rightarrow> (notices @ [CheckpointFailed filePath (GitError e)], None)
                  | Inr commitHash \<Rightarrow>
                      if commitHash = [] then (notices @ [NoCommitHash filePath], None)
                      else
                        (case filePath of
                           JStr fp \<Rightarrow>
                             (let timestamp = fileTimestamp (isoTimestamp io);
                                  toolName = name (request toolCall);
                                  fileName = pathBasename env fp;
                                  toolCallWithSnapshotFileName =
                                    timestamp @ ''-'' @ fileName @ ''-'' @ toolName @ ''.json'';
                                  clientHistory = getHistory io;
                                  toolCallWithSnapshotFilePath =
                                    pathJoin env checkpointDir toolCallWithSnapshotFileName
                              in case writeFile io of
                                   Some e \<Rightarrow>
                                     (notices @ [CheckpointFailed filePath (WriteError e)], None)
                                 | None \<Rightarrow>
                                     (notices,
                                      Some (toolCallWithSnapshotFilePath,
                                            checkpointRecord (historyProp env) clientHistory
                                              (request toolCall) commitHash fp)))
                         | _ \<Rightarrow>
                             (notices @ [CheckpointFailed filePath PathTypeError], None)))))"

text \<open>
  The loop over the restorable tool calls; \<open>ios i\<close> is what the collaborators answer for
  the \<open>i\<close>-th of them.
\<close>

fun checkpointLoop ::
  "checkpoint_env \<Rightarrow> string \<Rightarrow> (nat \<Rightarrow> checkpoint_io) \<Rightarrow> nat \<Rightarrow> tracked_tool_call list \<Rightarrow>
     debug_notice list \<times> (string \<times> json) list" where
  "checkpointLoop env dir ios i [] = ([], [])"
| "checkpointLoop env dir ios i (tc # tcs) =
     (case checkpointToolCall env dir (ios i) tc of
        (notices, written) \<Rightarrow>
          (case checkpointLoop env dir ios (Suc i) tcs of
             (notices', files) \<Rightarrow>
               (notices @ notices',
                (case written of None \<Rightarrow> [] | Some f \<Rightarrow> [f]) @ files)))"

definition restorable :: "tracked_tool_call \<Rightarrow> bool" where
  "restorable toolCall =
     ((name (request toolCall) = ''replace'' \<or> name (request toolCall) = ''write_file'') \<and>
      status toolCall = CallAwaitingApproval)"

definition saveRestorableToolCalls ::
  "checkpoint_env \<Rightarrow> (nat \<Rightarrow> checkpoint_io) \<Rightarrow> tracked_tool_call list \<Rightarrow>
     debug_notice list \<times> (string \<times> json) list" where
  "saveRestorableToolCalls env ios toolCalls =
     (if \<not> getCheckpointingEnabled env then ([], [])
      else
        (let restorableToolCalls = filter restorable toolCalls
         in if length restorableToolCalls > 0 then
              (case getProjectTempCheckpointsDir env of
                 None \<Rightarrow> ([], [])
               | Some checkpointDir \<Rightarrow>
                   if checkpointDir = [] then ([], [])
                   else
                     (case mkdir env of
                        MkdirError e \<Rightarrow> ([MkdirFailed e], [])
                      | _ \<Rightarrow> checkpointLoop env checkpointDir ios 0 restorableToolCalls))
            else ([], [])))"

text \<open>Sample surroundings for running the recorder: POSIX paths.\<close>

definition posixBasename :: "string \<Rightarrow> string" where
  "posixBasename p =
     rev (takeWhile (\<lambda>c. c \<noteq> CHR ''/'') (dropWhile (\<lambda>c. c = CHR ''/'') (rev p)))"

definition sampleCheckpointEnv :: checkpoint_env where
  "sampleCheckpointEnv =
     \<lparr>getCheckpointingEnabled = True, getProjectTempCheckpointsDir = Some ''/tmp/checkpoints'',
      mkdir = MkdirExists, gitService = True, historyProp = JArr [],
      pathBasename = posixBasename, pathJoin = (\<lambda>d f. d @ ''/'' @ f)\<rparr>"

definition sampleCheckpointIo :: checkpoint_io where
  "sampleCheckpointIo =
     \<lparr>createFileSnapshot = Inl ''nothing to commit'', getCurrentCommitHash = Inr ''abc123'',
      isoTimestamp = ''2025-01-02T03:04:05.678Z'', getHistory = Some (JArr []),
      writeFile = None\<rparr>"

definition sampleEdit :: tracked_tool_call where
  "sampleEdit =
     \<lparr>request = \<lparr>callId = ''c7'', name = ''replace'',
                  args = [(''file_path'', JStr ''/work/src/main.ts''), (''old_string'', JStr ''a''),
                          (''new_string'', JStr ''b'')],
                  isClientInitiated = False, prompt_id = ''session########1''\<rparr>,
      status = CallAwaitingApproval, responseParts = None,
      responseSubmittedToGemini = False\<rparr>"

section \<open>Properties of token counting\<close>

lemma ceil4_div: "ceil4 n = int ((n + 3) div 4)"
proof -
  have "\<lceil>real n / 4\<rceil> = \<lceil>of_int (int n) / (of_int 4 :: real)\<rceil>" by simp
  also have "\<dots> = - ((- int n) div 4)" by (rule ceiling_divide_eq_div)
  also have "\<dots> = int ((n + 3) div 4)" by linarith
  finally show ?thesis by (simp add: ceil4_def)
qed

lemma ceil4_nonneg: "0 \<le> ceil4 n"
  by (simp add: ceil4_div)

lemma ceil4_zero: "ceil4 0 = 0"
  by (simp add: ceil4_def)

lemma countParts_sum:
  "countParts acc ps = acc + (\<Sum>n\<leftarrow>map length (List.map_filter text ps). ceil4 n)"
proof (induction ps arbitrary: acc)
  case Nil
  show ?case by simp
next
  case (Cons p ps)
  show ?case
  proof (cases "text p")
    case None
    with Cons show ?thesis by simp
  next
    case (Some t)
    with Cons show ?thesis by (simp add: ceil4_zero)
  qed
qed

lemma map_filter_append_text:
  "List.map_filter text (xs @ ys) = List.map_filter text xs @ List.map_filter text ys"
  by (simp add: List.map_filter_def)

lemma countContents_sum:
  "countContents acc cs = acc + (\<Sum>n\<leftarrow>textLengths cs. ceil4 n)"
proof (induction cs arbitrary: acc)
  case Nil
  show ?case by (simp add: textLengths_def allParts_def)
next
  case (Cons c cs)
  have tl: "textLengths (c # cs) =
      map length (List.map_filter text (case parts c of None \<Rightarrow> [] | Some ps \<Rightarrow> ps)) @ textLengths cs"
    by (simp add: textLengths_def allParts_def map_filter_append_text)
  show ?case
  proof (cases "parts c")
    case None
    with Cons tl show ?thesis by simp
  next
    case (Some ps)
    with Cons tl show ?thesis by (simp add: countParts_sum)
  qed
qed

text \<open>
  C10. For every request whose contents normalise to \<open>cs\<close>, \<open>countTokens\<close> returns a
  \<open>totalTokens\<close> that is the sum, over the parts of \<open>cs\<close> that have a text, of the ceiling
  of the text length divided by four (the real-number ceiling of the source, which is also
  \<open>(n + 3) div 4\<close>); parts without text add nothing, the count is a function of the contents
  and is never negative, and empty contents give zero.
\<close>

theorem countTokens_sum_of_ceilings:
  "toContents req = Inr cs \<Longrightarrow>
     countTokens toContents req = Inr (\<Sum>n\<leftarrow>textLengths cs. \<lceil>real n / 4\<rceil>)
   \<and> (\<Sum>n\<leftarrow>textLengths cs. \<lceil>real n / 4\<rceil>) = (\<Sum>n\<leftarrow>textLengths cs. int ((n + 3) div 4))
   \<and> 0 \<le> (\<Sum>n\<leftarrow>textLengths cs. \<lceil>real n / 4\<rceil>)
   \<and> countTokens (\<lambda>r. Inr []) req = Inr 0"
proof -
  assume cs: "toContents req = Inr cs"
  have ceil: "(\<lambda>n. \<lceil>real n / 4\<rceil>) = ceil4"
    by (rule ext) (simp add: ceil4_def)
  have a: "countTokens toContents req = Inr (\<Sum>n\<leftarrow>textLengths cs. \<lceil>real n / 4\<rceil>)"
    using cs by (simp add: countTokens_def countContents_sum ceil)
  have b: "(\<Sum>n\<leftarrow>textLengths cs. \<lceil>real n / 4\<rceil>) = (\<Sum>n\<leftarrow>textLengths cs. int ((n + 3) div 4))"
  proof -
    have "ceil4 = (\<lambda>n. int ((n + 3) div 4))"
      by (rule ext) (rule ceil4_div)
    then show ?thesis by (simp add: ceil)
  qed
  have c: "0 \<le> (\<Sum>n\<leftarrow>textLengths cs. \<lceil>real n / 4\<rceil>)"
    unfolding ceil by (rule sum_list_nonneg) (auto simp: ceil4_nonneg)
  have d: "countTokens (\<lambda>r. Inr []) req = Inr 0"
    by (simp add: countTokens_def)
  from a b c d show ?thesis by blast
qed

theorem countTokens_sum_of_ceilings_witness:
  "countTokens Inr
     [\<lparr>role = Some ''user'',
       parts = Some [\<lparr>text = Some ''hello''\<rparr>, \<lparr>text = None\<rparr>, \<lparr>text = Some []\<rparr>]\<rparr>,
      \<lparr>role = None, parts = None\<rparr>,
      \<lparr>role = Some ''model'', parts = Some [\<lparr>text = Some ''abcdefgh''\<rparr>]\<rparr>]
   = Inr 4"
  using countTokens_sum_of_ceilings [of Inr
     "[\<lparr>role = Some ''user'',
       parts = Some [\<lparr>text = Some ''hello''\<rparr>, \<lparr>text = None\<rparr>, \<lparr>text = Some []\<rparr>]\<rparr>,
      \<lparr>role = None, parts = None\<rparr>,
      \<lparr>role = Some ''model'', parts = Some [\<lparr>text = Some ''abcdefgh''\<rparr>]\<rparr>]"
     "[\<lparr>role = Some ''user'',
       parts = Some [\<lparr>text = Some ''hello''\<rparr>, \<lparr>text = None\<rparr>, \<lparr>text = Some []\<rparr>]\<rparr>,
      \<lparr>role = None, parts = None\<rparr>,
      \<lparr>role = Some ''model'', parts = Some [\<lparr>text = Some ''abcdefgh''\<rparr>]\<rparr>]"]
  by (simp add: textLengths_def allParts_def)

section \<open>Properties of the content reassembler\<close>

lemma fst_splitAndUpdate:
  "fst (splitAndUpdate sp nb st) = (if sp nb = length nb then nb else drop (sp nb) nb)"
  by (simp add: splitAndUpdate_def Let_def)

lemma turnCancelled_openGeminiItem [simp]:
  "turnCancelled (openGeminiItem st) = turnCancelled st"
  by (simp add: openGeminiItem_def setPendingHistoryItem_def addItem_def split: option.splits)

lemma turnCancelled_splitAndUpdate [simp]:
  "turnCancelled (snd (splitAndUpdate sp nb st)) = turnCancelled st"
  by (simp add: splitAndUpdate_def Let_def setPendingHistoryItem_def addItem_def)


lemma pendingType_openGeminiItem:
  "pendingType (openGeminiItem st) = Some Gemini \<or>
   pendingType (openGeminiItem st) = Some GeminiContent"
  by (auto simp: openGeminiItem_def setPendingHistoryItem_def addItem_def pendingType_def
      textItem_def split: option.splits)






lemma handleContentEvent_unfold:
  "\<not> turnCancelled st \<Longrightarrow>
   handleContentEvent sp frag buf st =
     (if specApply buf frag = buf then (buf, st)
      else splitAndUpdate sp (specApply buf frag) (openGeminiItem st))"
  by (auto simp: handleContentEvent_def specApply_def Let_def)

text \<open>
  C4, as the claim states it, fails: the handler first looks at the cancellation flag
  (line 380). On a cancelled turn it returns the empty buffer for every fragment: for
  the empty fragment the result is not the buffer \<open>abc\<close>, and for the fragment \<open>abcd\<close>,
  which starts with the buffer, the result is not the fragment.
\<close>

theorem handleContentEvent_cancelled_returns_empty:
  "turnCancelled (cancelOngoingRequest Responding (freshState :: unit ui_state))
   \<and> fst (handleContentEvent length [] ''abc''
        (cancelOngoingRequest Responding (freshState :: unit ui_state))) \<noteq> ''abc''
   \<and> fst (handleContentEvent length ''abcd'' ''abc''
        (cancelOngoingRequest Responding (freshState :: unit ui_state))) \<noteq> ''abcd''
   \<and> handleContentEvent length [] ''abc''
        (cancelOngoingRequest Responding (freshState :: unit ui_state))
       = ([], cancelOngoingRequest Responding freshState)"
  by (simp add: handleContentEvent_def cancelOngoingRequest_def freshState_def Let_def
      addItem_def setPendingHistoryItem_def)

text \<open>
  C4, amended. For every buffer, fragment and state: on a cancelled turn the handler
  returns the empty buffer and the state as it was. On a turn that is not cancelled the
  apply step computes the buffer of the contract: the buffer itself for an empty
  fragment, the fragment when it starts with the buffer, the buffer followed by the
  fragment otherwise. When the computed buffer equals the prior one, the handler returns
  the prior buffer and the state as it was: no pending-item update, no transcript
  append. Otherwise the computed buffer is the one handed to the split step, and the
  buffer returned is the computed one, or its part after the split point.
\<close>

theorem handleContentEvent_apply:
  "handleContentEvent sp frag buf st =
     (if turnCancelled st then ([], st)
      else if specApply buf frag = buf then (buf, st)
      else splitAndUpdate sp (specApply buf frag) (openGeminiItem st))
   \<and> handleContentEvent sp [] buf st = (if turnCancelled st then ([], st) else (buf, st))
   \<and> specApply buf frag =
       (if frag = [] then buf else if prefix buf frag then frag else buf @ frag)
   \<and> fst (handleContentEvent sp frag buf st) =
       (if turnCancelled st then []
        else if specApply buf frag = buf \<or>
                sp (specApply buf frag) = length (specApply buf frag)
        then specApply buf frag
        else drop (sp (specApply buf frag)) (specApply buf frag))"
  by (auto simp: handleContentEvent_def specApply_def Let_def fst_splitAndUpdate)

theorem handleContentEvent_apply_witness:
  "fst (handleContentEvent length ''Hello'' ''Hel'' (freshState :: unit ui_state)) = ''Hello''
   \<and> handleContentEvent length ''Hel'' ''Hel'' (freshState :: unit ui_state) = (''Hel'', freshState)
   \<and> handleContentEvent length [] ''Hel'' (freshState :: unit ui_state) = (''Hel'', freshState)
   \<and> handleContentEvent length ''Hello'' ''Hel''
        (cancelOngoingRequest Responding (freshState :: unit ui_state))
       = ([], cancelOngoingRequest Responding freshState)"
proof -
  have nc: "\<not> turnCancelled (freshState :: unit ui_state)"
    by (simp add: freshState_def)
  have c: "turnCancelled (cancelOngoingRequest Responding (freshState :: unit ui_state))"
    by (simp add: cancelOngoingRequest_def freshState_def Let_def addItem_def
        setPendingHistoryItem_def)
  show ?thesis
    using handleContentEvent_apply [of length "''Hello''" "''Hel''" "freshState :: unit ui_state"]
      handleContentEvent_apply [of length "''Hel''" "''Hel''" "freshState :: unit ui_state"]
      handleContentEvent_apply [of length "''Hello''" "''Hel''"
        "cancelOngoingRequest Responding (freshState :: unit ui_state)"]
      nc c
    by (simp add: specApply_def fst_splitAndUpdate)
qed

text \<open>
  C7, as the claim states it, fails: on a fresh message the fragment \<open>Hi\<close> has its split
  point at its end, the buffer returned is \<open>Hi\<close>, and the pending item keeps the empty
  text, because the update of the pending item is throttled (it happens only when the
  buffer is more than five characters longer than the pending text or ends with a blank,
  a full stop, an exclamation or a question mark).
\<close>

theorem handleContentEvent_pending_not_updated:
  "length ''Hi'' = length (specApply [] ''Hi'')
   \<and> fst (handleContentEvent length ''Hi'' [] (freshState :: unit ui_state)) = ''Hi''
   \<and> pendingText (snd (handleContentEvent length ''Hi'' [] (freshState :: unit ui_state))) \<noteq> ''Hi''"
  by (simp add: handleContentEvent_def splitAndUpdate_def openGeminiItem_def freshState_def
      pendingText_def pendingType_def setPendingHistoryItem_def textItem_def endsWith_def
      specApply_def Let_def)

text \<open>
  C7, amended. After an apply step that changed the buffer to \<open>nb\<close>, with \<open>st1\<close> the state
  once a \<^verbatim>\<open>gemini\<close> item is pending and \<open>k\<close> the split point of \<open>nb\<close>:
  \<^item> if \<open>k\<close> is the length of \<open>nb\<close>, the handler returns \<open>nb\<close>, appends nothing, and sets the
    text of the pending item to \<open>nb\<close> only under the throttle above, leaving the pending item
    as it is otherwise;
  \<^item> otherwise it returns the text after \<open>k\<close>, which also becomes the pending
    \<^verbatim>\<open>gemini_content\<close> item, and appends the text before \<open>k\<close> as an item of the pending item's
    type unless that text is empty or equal to the pending item's text; the two texts
    together are \<open>nb\<close>.
\<close>

theorem handleContentEvent_split:
  assumes "\<not> turnCancelled st" and "specApply buf frag \<noteq> buf"
  shows "handleContentEvent sp frag buf st =
     (let nb = specApply buf frag; st1 = openGeminiItem st; k = sp nb
      in if k = length nb then
           (nb,
            if pendingText st1 \<noteq> nb \<and>
               (5 < int (length nb) - int (length (pendingText st1)) \<or>
                endsWith nb CHR '' '' \<or> endsWith nb CHR ''.'' \<or>
                endsWith nb CHR ''!'' \<or> endsWith nb CHR ''?'')
            then st1\<lparr>pendingHistoryItem :=
                   Some \<lparr>itype = pendingType st1, itext = Some nb, tools = []\<rparr>\<rparr>
            else st1)
         else
           (drop k nb,
            st1\<lparr>history := history st1 @
                   (if take k nb \<noteq> [] \<and> take k nb \<noteq> pendingText st1
                    then [\<lparr>itype = pendingType st1, itext = Some (take k nb), tools = []\<rparr>]
                    else []),
                 pendingHistoryItem :=
                   Some \<lparr>itype = Some GeminiContent, itext = Some (drop k nb), tools = []\<rparr>\<rparr>))
   \<and> take (sp (specApply buf frag)) (specApply buf frag) @
       drop (sp (specApply buf frag)) (specApply buf frag) = specApply buf frag
   \<and> (pendingType (openGeminiItem st) = Some Gemini \<or>
       pendingType (openGeminiItem st) = Some GeminiContent)"
  using assms pendingType_openGeminiItem [of st]
  by (simp add: handleContentEvent_unfold splitAndUpdate_def Let_def setPendingHistoryItem_def
      addItem_def textItem_def)

theorem handleContentEvent_split_witness:
  "\<not> turnCancelled (freshState :: unit ui_state) \<and> specApply [] ''abcd'' \<noteq> []
   \<and> handleContentEvent (\<lambda>s. 2) ''abcd'' [] (freshState :: unit ui_state) =
       (''cd'',
        \<lparr>history = [\<lparr>itype = Some Gemini, itext = Some ''ab'', tools = []\<rparr>],
         pendingHistoryItem =
           Some \<lparr>itype = Some GeminiContent, itext = Some ''cd'', tools = []\<rparr>,
         turnCancelled = False, thought = None, isResponding = True, loopDetected = False\<rparr>)"
proof -
  have h1: "\<not> turnCancelled (freshState :: unit ui_state)" by (simp add: freshState_def)
  have h2: "specApply [] ''abcd'' \<noteq> []" by (simp add: specApply_def)
  show ?thesis
    using h1 h2 handleContentEvent_split [OF h1 h2, of "\<lambda>s. 2"]
    by (simp add: specApply_def Let_def openGeminiItem_def pendingType_def pendingText_def
        freshState_def setPendingHistoryItem_def textItem_def)
qed






section \<open>Properties of the dispatcher\<close>

lemma processEvent_seen:
  "eventId c d \<in> processedEventIds s \<Longrightarrow> processEvent c d s = s"
  by (simp add: processEvent_def)

lemma find_callId:
  "(find (\<lambda>req. callId req = k) xs = None) = (k \<notin> callId ` set xs)"
  by (induction xs) auto

lemma toolCallRequests_processEvent:
  "toolCallRequests (processEvent c d s) =
     (case event d of
        ToolCallRequest v \<Rightarrow>
          if eventId c d \<in> processedEventIds s \<or>
             callId v \<in> callId ` set (toolCallRequests s)
          then toolCallRequests s else toolCallRequests s @ [v]
      | _ \<Rightarrow> toolCallRequests s)"
proof (cases "eventId c d \<in> processedEventIds s")
  case True
  then show ?thesis
    by (simp add: processEvent_def split: event.splits)
next
  case False
  show ?thesis
  proof (cases "event d")
    case (ToolCallRequest v)
    show ?thesis
    proof (cases "find (\<lambda>req. callId req = callId v) (toolCallRequests s)")
      case None
      with False ToolCallRequest show ?thesis
        using find_callId [of "callId v" "toolCallRequests s"]
        by (simp add: processEvent_def Let_def)
    next
      case (Some x)
      with False ToolCallRequest show ?thesis
        using find_callId [of "callId v" "toolCallRequests s"]
        by (simp add: processEvent_def Let_def)
    qed
  qed (use False in \<open>simp_all add: processEvent_def Let_def split: prod.splits\<close>)
qed

lemma distinct_processEvent:
  "distinct (map callId (toolCallRequests s)) \<Longrightarrow>
   distinct (map callId (toolCallRequests (processEvent c d s)))"
  by (auto simp: toolCallRequests_processEvent split: event.splits)

lemma distinct_processEvents:
  "distinct (map callId (toolCallRequests s)) \<Longrightarrow>
   distinct (map callId (toolCallRequests (processEvents c ds s)))"
  by (induction ds arbitrary: s) (auto simp: distinct_processEvent)

lemma processedEventIds_processEvent:
  "processedEventIds (processEvent c d s) = insert (eventId c d) (processedEventIds s)"
  by (auto simp: processEvent_def Let_def split: event.splits option.splits prod.splits)

lemma processedEventIds_processEvents:
  "processedEventIds (processEvents c ds s) = processedEventIds s \<union> eventId c ` set ds"
  by (induction ds arbitrary: s) (auto simp: processedEventIds_processEvent)

lemma turnCancelled_processEvent:
  "turnCancelled (ui s) \<Longrightarrow> turnCancelled (ui (processEvent c d s))"
  by (auto simp: processEvent_def Let_def handleUserCancelledEvent_def handleErrorEvent_def
      handleChatCompressionEvent_def handleMaxSessionTurnsEvent_def handleFinishedEvent_def
      addItem_def setPendingHistoryItem_def handleContentEvent_def
      split: event.splits option.splits prod.splits)

lemma turnCancelled_processEvents:
  "turnCancelled (ui s) \<Longrightarrow> turnCancelled (ui (processEvents c ds s))"
  by (induction ds arbitrary: s) (auto simp: turnCancelled_processEvent)

text \<open>
  C5. Within the events of one turn:
  \<^item> the identity of a content event is its type, its length and its last ten characters,
    that of any other event its type, the clock and a random number;
  \<^item> an event whose identity is among those seen is skipped: the whole state, transcript
    and request list included, stays as it was; this holds in particular for an event
    that has the identity of an earlier event of the stream;
  \<^item> a tool call request whose call identifier is in the request list is not added again,
    and the requests handed to the scheduler at the end of the stream have pairwise
    different call identifiers.
\<close>

theorem processEvent_skips_duplicates:
  "eventId c d =
     (case event d of
        Content w \<Rightarrow>
          typeName c TContent @ ''-'' @ dec (length w) @ ''-'' @ drop (length w - 10) w
      | _ \<Rightarrow> typeName c (eventType (event d)) @ ''-'' @ dec (now d) @ ''-'' @ random d)
   \<and> (eventId c d \<in> processedEventIds s \<longrightarrow> processEvent c d s = s)
   \<and> (eventId c d \<in> eventId c ` set ds \<longrightarrow>
        processEvent c d (processEvents c ds s) = processEvents c ds s)
   \<and> (event d = ToolCallRequest q \<and> callId q \<in> callId ` set (toolCallRequests s) \<longrightarrow>
        toolCallRequests (processEvent c d s) = toolCallRequests s)
   \<and> (\<forall>reqs. fst (snd (processGeminiStreamEvents c stream st)) = Some reqs \<longrightarrow>
        distinct (map callId reqs))"
proof -
  have a: "eventId c d =
     (case event d of
        Content w \<Rightarrow>
          typeName c TContent @ ''-'' @ dec (length w) @ ''-'' @ drop (length w - 10) w
      | _ \<Rightarrow> typeName c (eventType (event d)) @ ''-'' @ dec (now d) @ ''-'' @ random d)"
    by (cases "event d") (simp_all add: eventId_def)
  have e: "eventId c d \<in> eventId c ` set ds \<longrightarrow>
        processEvent c d (processEvents c ds s) = processEvents c ds s"
    by (simp add: processEvent_seen processedEventIds_processEvents)
  have f: "event d = ToolCallRequest q \<and> callId q \<in> callId ` set (toolCallRequests s) \<longrightarrow>
        toolCallRequests (processEvent c d s) = toolCallRequests s"
    by (simp add: toolCallRequests_processEvent)
  have "distinct (map callId (toolCallRequests (processEvents c stream (initialStreamState st))))"
    by (rule distinct_processEvents) (simp add: initialStreamState_def)
  then have g: "\<forall>reqs. fst (snd (processGeminiStreamEvents c stream st)) = Some reqs \<longrightarrow>
        distinct (map callId reqs)"
    by (auto simp: processGeminiStreamEvents_def Let_def split: if_splits)
  from a e f g show ?thesis
    by (simp add: processEvent_seen)
qed

theorem processEvent_skips_duplicates_witness:
  "eventId sampleCollab
      \<lparr>event = Content ''Hello, world!'' :: (string, string) event, now = 17, random = ''0.25''\<rparr>
     = ''content-13-lo, world!''
   \<and> processEvents sampleCollab
       [\<lparr>event = Content ''Hello, world!'' :: (string, string) event, now = 17, random = ''0.25''\<rparr>,
        \<lparr>event = Content ''Hello, world!'', now = 18, random = ''0.75''\<rparr>]
       (initialStreamState freshState)
     = processEvents sampleCollab
       [\<lparr>event = Content ''Hello, world!'' :: (string, string) event, now = 17, random = ''0.25''\<rparr>]
       (initialStreamState freshState)
   \<and> toolCallRequests (processEvents sampleCollab
       [\<lparr>event = ToolCallRequest \<lparr>callId = ''c1'', name = ''read_file'', args = [],
            isClientInitiated = False, prompt_id = ''p1''\<rparr> :: (string, string) event,
          now = 17, random = ''0.25''\<rparr>,
        \<lparr>event = ToolCallRequest \<lparr>callId = ''c1'', name = ''read_file'', args = [],
            isClientInitiated = False, prompt_id = ''p1''\<rparr>,
          now = 18, random = ''0.75''\<rparr>]
       (initialStreamState freshState))
     = [\<lparr>callId = ''c1'', name = ''read_file'', args = [],
            isClientInitiated = False, prompt_id = ''p1''\<rparr>]"
proof -
  let ?d1 = "\<lparr>event = Content ''Hello, world!'' :: (string, string) event, now = 17,
    random = ''0.25''\<rparr>"
  let ?d2 = "\<lparr>event = Content ''Hello, world!'' :: (string, string) event, now = 18,
    random = ''0.75''\<rparr>"
  let ?q = "\<lparr>callId = ''c1'', name = ''read_file'', args = [],
    isClientInitiated = False, prompt_id = ''p1''\<rparr>"
  let ?t1 = "\<lparr>event = ToolCallRequest ?q :: (string, string) event, now = 17,
    random = ''0.25''\<rparr>"
  let ?t2 = "\<lparr>event = ToolCallRequest ?q :: (string, string) event, now = 18,
    random = ''0.75''\<rparr>"
  let ?s0 = "initialStreamState (freshState :: string ui_state)"
  have id1: "eventId sampleCollab ?d1 = ''content-13-lo, world!''"
    by code_simp
  have same: "eventId sampleCollab ?d2 \<in> eventId sampleCollab ` set [?d1]"
    by (simp add: eventId_def)
  from processEvent_skips_duplicates [of sampleCollab ?d2 ?s0 "[?d1]" ?q "[]" freshState] same
  have dup: "processEvent sampleCollab ?d2 (processEvents sampleCollab [?d1] ?s0)
      = processEvents sampleCollab [?d1] ?s0"
    by blast
  have first: "toolCallRequests (processEvent sampleCollab ?t1 ?s0) = [?q]"
    by (simp add: toolCallRequests_processEvent initialStreamState_def)
  from processEvent_skips_duplicates [of sampleCollab ?t2 "processEvent sampleCollab ?t1 ?s0"
      "[]" ?q "[]" freshState]
  have imp: "event ?t2 = ToolCallRequest ?q \<and>
      callId ?q \<in> callId ` set (toolCallRequests (processEvent sampleCollab ?t1 ?s0)) \<longrightarrow>
      toolCallRequests (processEvent sampleCollab ?t2 (processEvent sampleCollab ?t1 ?s0)) =
      toolCallRequests (processEvent sampleCollab ?t1 ?s0)"
    by blast
  have "toolCallRequests (processEvent sampleCollab ?t2 (processEvent sampleCollab ?t1 ?s0)) = [?q]"
    using imp unfolding first by simp
  with id1 dup show ?thesis by simp
qed

text \<open>
  C8, as the claim states it, fails: with cancellation raised by \<open>cancelOngoingRequest\<close>,
  a thought event still overwrites the reasoning summary (the \<^verbatim>\<open>Thought\<close> case has no
  cancellation test), and a content event, though it changes nothing in the transcript,
  resets the content buffer to the empty string.
\<close>

theorem cancelled_thought_not_suppressed:
  "turnCancelled (cancelOngoingRequest Responding (freshState :: string ui_state))
   \<and> thought (ui (processEvent sampleCollab
        \<lparr>event = Thought ''plan'', now = 17, random = ''0.25''\<rparr>
        (initialStreamState (cancelOngoingRequest Responding freshState)))) = Some ''plan''
   \<and> thought (ui (initialStreamState
        (cancelOngoingRequest Responding (freshState :: string ui_state)))) = None
   \<and> geminiMessageBuffer (processEvent sampleCollab
        \<lparr>event = Content ''d'' :: (string, string) event, now = 18, random = ''0.75''\<rparr>
        ((initialStreamState (cancelOngoingRequest Responding freshState))
           \<lparr>geminiMessageBuffer := ''abc''\<rparr>)) \<noteq> ''abc''"
  by (simp add: processEvent_def cancelOngoingRequest_def freshState_def initialStreamState_def
      Let_def addItem_def setPendingHistoryItem_def handleContentEvent_def)

text \<open>
  C8, amended. Once cancellation is raised (\<open>turnCancelled\<close>), it stays raised over every
  further event of the stream. Every content event processed from then on leaves the
  state of the hook (transcript, pending item, reasoning summary) and the request list
  as they were, and returns the empty buffer unless it is skipped as a duplicate. Thought
  events are not suppressed: one that is not a duplicate sets the reasoning summary. The
  dispatcher does not stop: every remaining event is looked at and recorded, an error
  event among them is still handled, and the status returned is \<open>Completed\<close>.
\<close>

theorem cancelled_turn_dispatch:
  assumes "turnCancelled (ui s)"
    and "event dc = Content v" and "event dt = Thought w" and "event de = Error e"
  shows "turnCancelled (ui (processEvents c ds s))
   \<and> processedEventIds (processEvents c ds s) = processedEventIds s \<union> eventId c ` set ds
   \<and> ui (processEvent c dc s) = ui s
   \<and> toolCallRequests (processEvent c dc s) = toolCallRequests s
   \<and> geminiMessageBuffer (processEvent c dc s) =
       (if eventId c dc \<in> processedEventIds s then geminiMessageBuffer s else [])
   \<and> thought (ui (processEvent c dt s)) =
       (if eventId c dt \<in> processedEventIds s then thought (ui s) else Some w)
   \<and> ui (processEvent c de s) =
       (if eventId c de \<in> processedEventIds s then ui s else handleErrorEvent c e (ui s))
   \<and> fst (processGeminiStreamEvents c stream st) = Completed"
proof -
  have a: "turnCancelled (ui (processEvents c ds s))"
    using assms(1) by (rule turnCancelled_processEvents)
  have b: "processedEventIds (processEvents c ds s) = processedEventIds s \<union> eventId c ` set ds"
    by (rule processedEventIds_processEvents)
  have c1: "ui (processEvent c dc s) = ui s"
    using assms(1,2) by (simp add: processEvent_def Let_def handleContentEvent_def)
  have c2: "toolCallRequests (processEvent c dc s) = toolCallRequests s"
    using assms(2) by (simp add: toolCallRequests_processEvent)
  have c3: "geminiMessageBuffer (processEvent c dc s) =
       (if eventId c dc \<in> processedEventIds s then geminiMessageBuffer s else [])"
    using assms(1,2) by (simp add: processEvent_def Let_def handleContentEvent_def)
  have d: "thought (ui (processEvent c dt s)) =
       (if eventId c dt \<in> processedEventIds s then thought (ui s) else Some w)"
    using assms(3) by (simp add: processEvent_def Let_def)
  have e: "ui (processEvent c de s) =
       (if eventId c de \<in> processedEventIds s then ui s else handleErrorEvent c e (ui s))"
    using assms(4) by (simp add: processEvent_def Let_def)
  have f: "fst (processGeminiStreamEvents c stream st) = Completed"
    by (simp add: processGeminiStreamEvents_def Let_def)
  from a b c1 c2 c3 d e f show ?thesis by blast
qed

theorem cancelled_turn_dispatch_witness:
  "turnCancelled (ui (initialStreamState
      (cancelOngoingRequest Responding (freshState :: string ui_state))))
   \<and> ui (processEvent sampleCollab
        \<lparr>event = Content ''late text'' :: (string, string) event, now = 18, random = ''0.75''\<rparr>
        (initialStreamState (cancelOngoingRequest Responding freshState)))
     = cancelOngoingRequest Responding freshState
   \<and> thought (ui (processEvent sampleCollab
        \<lparr>event = Thought ''plan'' :: (string, string) event, now = 19, random = ''0.5''\<rparr>
        (initialStreamState (cancelOngoingRequest Responding freshState))))
     = Some ''plan''
   \<and> history (cancelOngoingRequest Responding (freshState :: string ui_state)) =
       [\<lparr>itype = Some Info, itext = Some ''Request cancelled.'', tools = []\<rparr>]"
proof -
  let ?s = "initialStreamState (cancelOngoingRequest Responding (freshState :: string ui_state))"
  let ?dc = "\<lparr>event = Content ''late text'' :: (string, string) event, now = 18,
    random = ''0.75''\<rparr>"
  let ?dt = "\<lparr>event = Thought ''plan'' :: (string, string) event, now = 19,
    random = ''0.5''\<rparr>"
  let ?de = "\<lparr>event = Error ''quota'' :: (string, string) event, now = 20,
    random = ''0.125''\<rparr>"
  have h: "turnCancelled (ui ?s)"
    by (simp add: cancelOngoingRequest_def freshState_def initialStreamState_def Let_def
        addItem_def setPendingHistoryItem_def)
  have u: "ui ?s = cancelOngoingRequest Responding freshState"
    by (simp add: initialStreamState_def)
  have ids: "processedEventIds ?s = {}"
    by (simp add: initialStreamState_def)
  have i: "history (cancelOngoingRequest Responding (freshState :: string ui_state)) =
       [\<lparr>itype = Some Info, itext = Some ''Request cancelled.'', tools = []\<rparr>]"
    by (simp add: cancelOngoingRequest_def freshState_def Let_def addItem_def
        setPendingHistoryItem_def textItem_def)
  have ec: "event ?dc = Content ''late text''" by simp
  have et: "event ?dt = Thought ''plan''" by simp
  have ee: "event ?de = Error ''quota''" by simp
  from cancelled_turn_dispatch [OF h ec et ee, of sampleCollab "[]"]
  have "ui (processEvent sampleCollab ?dc ?s) = ui ?s
      \<and> thought (ui (processEvent sampleCollab ?dt ?s)) =
          (if eventId sampleCollab ?dt \<in> processedEventIds ?s then thought (ui ?s)
           else Some ''plan'')"
    by blast
  with h u i ids show ?thesis by simp
qed

section \<open>Properties of the submission of tool results\<close>

lemma start_guard:
  "renderIsResponding r \<or> toolSubmissionInProgress st \<Longrightarrow>
   handleCompletedTools_start r b st = (Skipped, st)"
  by (simp add: handleCompletedTools_start_def)

lemma start_admitted:
  assumes "\<not> renderIsResponding r" "\<not> toolSubmissionInProgress st"
    and "handleCompletedTools_start r b st = (out, st')"
  shows "out \<noteq> Skipped \<and> toolSubmissionInProgress st' \<and>
         pendingToolSubmission st' = pendingToolSubmission st \<and> timers st' = timers st"
  using assms
  by (auto simp: handleCompletedTools_start_def Let_def markToolsAsSubmitted_def addHistory_def
      split: if_splits)

lemma start_cases:
  obtains (skip) "renderIsResponding r \<or> toolSubmissionInProgress st"
      "handleCompletedTools_start r b st = (Skipped, st)"
  | (pass) st' out where "\<not> renderIsResponding r" "\<not> toolSubmissionInProgress st"
      "handleCompletedTools_start r b st = (out, st')" "out \<noteq> Skipped"
      "toolSubmissionInProgress st'" "pendingToolSubmission st' = pendingToolSubmission st"
      "timers st' = timers st"
proof (cases "renderIsResponding r \<or> toolSubmissionInProgress st")
  case True
  then show ?thesis using skip start_guard by blast
next
  case False
  obtain out st' where eq: "handleCompletedTools_start r b st = (out, st')" by force
  from False have a: "\<not> renderIsResponding r" "\<not> toolSubmissionInProgress st" by auto
  from start_admitted[OF a eq] show ?thesis using pass[OF a eq] by blast
qed

lemma notePass_simps:
  "sub (notePass r b out m) = sub m"
  "started (notePass r b out m) = (if out = Skipped then started m else started m @ [b])"
  "suspended (notePass r b out m) =
     (if out = Suspended then suspended m @ [(r, b)] else suspended m)"
  by (cases out; simp add: notePass_def)+

lemma lockInv_start:
  assumes "lockInv m"
    and eq: "handleCompletedTools_start r b (sub m\<lparr>timers := ts\<rparr>) = (out, st)"
  shows "lockInv (notePass r b out (m\<lparr>sub := st\<rparr>))"
proof (cases rule: start_cases[of r "sub m\<lparr>timers := ts\<rparr>" b])
  case skip
  with eq assms(1) show ?thesis by (auto simp: lockInv_def notePass_simps)
next
  case (pass st' out')
  with eq assms(1) show ?thesis by (auto simp: lockInv_def notePass_simps)
qed

lemma lockInv_step: "lockInv m \<Longrightarrow> lockInv (step a m)"
proof (cases a)
  case (Settled r b)
  assume inv: "lockInv m"
  show ?thesis
  proof (cases "b = [] \<or> toolSubmissionInProgress (sub m)")
    case True
    with inv Settled show ?thesis
      by (auto simp: step_def onComplete_def lockInv_def Let_def)
  next
    case False
    let ?s1 = "sub m\<lparr>displayed := displayed (sub m) @ [b]\<rparr>"
    let ?m1 = "m\<lparr>sub := ?s1\<rparr>"
    obtain out st where eq: "handleCompletedTools_start r b ?s1 = (out, st)"
      by force
    have inv': "lockInv ?m1"
      using inv by (simp add: lockInv_def)
    have "?s1 = (sub ?m1)\<lparr>timers := timers (sub m)\<rparr>"
      by simp
    with eq have eq':
      "handleCompletedTools_start r b ((sub ?m1)\<lparr>timers := timers (sub m)\<rparr>) = (out, st)"
      by simp
    from lockInv_start[OF inv' eq'] False Settled eq show ?thesis
      by (simp add: step_def onComplete_def Let_def)
  qed
next
  case ContinuationDone
  assume "lockInv m"
  then show ?thesis using ContinuationDone
    by (auto simp: step_def lockInv_def split: list.splits)
next
  case TimerFired
  assume inv: "lockInv m"
  show ?thesis
  proof (cases "timers (sub m)")
    case Nil
    with inv TimerFired show ?thesis by (simp add: step_def)
  next
    case (Cons x rest)
    obtain r p where x: "x = (r, p)" by force
    obtain out st where
      eq: "handleCompletedTools_start r p (sub m\<lparr>timers := rest\<rparr>) = (out, st)"
      by force
    from lockInv_start[OF inv eq] TimerFired Cons x eq show ?thesis by (simp add: step_def)
  qed
qed

lemma lockInv_run: "lockInv m \<Longrightarrow> lockInv (run as m)"
  by (induction as arbitrary: m) (auto simp: lockInv_step)

lemma held_start:
  assumes eq: "handleCompletedTools_start r b (sub m\<lparr>timers := ts\<rparr>) = (out, st)"
  shows "held (notePass r b out (m\<lparr>sub := st\<rparr>)) \<subseteq>#
         mset (started m)
           + mset (case pendingToolSubmission (sub m) of None \<Rightarrow> [] | Some x \<Rightarrow> [x])
           + mset (map snd ts) + {#b#}"
proof (cases rule: start_cases[of r "sub m\<lparr>timers := ts\<rparr>" b])
  case skip
  with eq show ?thesis by (auto simp: held_def notePass_simps)
next
  case (pass st' out')
  with eq show ?thesis by (auto simp: held_def notePass_simps)
qed

lemma held_step: "held (step a m) \<subseteq># held m + mset (arrived [a])"
proof (cases a)
  case (Settled r b)
  show ?thesis
  proof (cases "b = []")
    case True
    with Settled show ?thesis by (simp add: step_def onComplete_def)
  next
    case ne: False
    show ?thesis
    proof (cases "toolSubmissionInProgress (sub m)")
      case True
      with Settled ne show ?thesis
        by (auto simp: step_def onComplete_def Let_def held_def split: option.splits)
    next
      case False
      let ?s1 = "sub m\<lparr>displayed := displayed (sub m) @ [b]\<rparr>"
      let ?m' = "m\<lparr>sub := ?s1\<rparr>"
      obtain out st where eq: "handleCompletedTools_start r b ?s1 = (out, st)"
        by force
      have eq':
        "handleCompletedTools_start r b ((sub ?m')\<lparr>timers := timers (sub m)\<rparr>) = (out, st)"
        using eq by simp
      have "held (notePass r b out (?m'\<lparr>sub := st\<rparr>)) \<subseteq># held m + {#b#}"
        using held_start[OF eq'] by (simp add: held_def)
      with False Settled ne eq show ?thesis
        by (simp add: step_def onComplete_def Let_def)
    qed
  qed
next
  case ContinuationDone
  then show ?thesis
    by (auto simp: step_def held_def handleCompletedTools_finally_def Let_def
        split: list.splits option.splits)
next
  case TimerFired
  show ?thesis
  proof (cases "timers (sub m)")
    case Nil
    with TimerFired show ?thesis by (simp add: step_def)
  next
    case (Cons x rest)
    obtain r p where x: "x = (r, p)" by force
    obtain out st where
      eq: "handleCompletedTools_start r p (sub m\<lparr>timers := rest\<rparr>) = (out, st)"
      by force
    have "held (notePass r p out (m\<lparr>sub := st\<rparr>)) \<subseteq># held m"
      using held_start[OF eq] Cons x by (simp add: held_def)
    with TimerFired Cons x eq show ?thesis by (simp add: step_def)
  qed
qed

lemma arrived_Cons: "mset (arrived (a # as)) = mset (arrived [a]) + mset (arrived as)"
  by (cases a) auto

lemma held_run: "held (run as m) \<subseteq># held m + mset (arrived as)"
proof (induction as arbitrary: m)
  case Nil
  show ?case by simp
next
  case (Cons a as)
  have "held (run as (step a m)) \<subseteq># held (step a m) + mset (arrived as)" by (rule Cons.IH)
  also have "\<dots> \<subseteq># held m + mset (arrived [a]) + mset (arrived as)"
    using held_step[of a m] by (simp add: subset_mset.add_mono)
  finally show ?case by (simp add: arrived_Cons[of a as] add.assoc)
qed

lemma started_locked: "toolSubmissionInProgress (sub m) \<Longrightarrow> started (step a m) = started m"
proof (cases a)
  case (Settled r b)
  assume "toolSubmissionInProgress (sub m)"
  with Settled show ?thesis by (simp add: step_def onComplete_def Let_def)
next
  case ContinuationDone
  then show ?thesis by (simp add: step_def split: list.splits)
next
  case TimerFired
  assume "toolSubmissionInProgress (sub m)"
  with TimerFired show ?thesis
    by (auto simp: step_def start_guard notePass_simps split: list.splits)
qed

lemma settled_queued:
  "toolSubmissionInProgress (sub m) \<Longrightarrow> batch \<noteq> [] \<Longrightarrow>
   step (Settled r batch) m =
     m\<lparr>sub := (sub m)\<lparr>displayed := displayed (sub m) @ [batch],
                       pendingToolSubmission := Some batch\<rparr>\<rparr>"
  by (simp add: step_def onComplete_def Let_def)

lemma settled_responding:
  "\<not> toolSubmissionInProgress (sub m) \<Longrightarrow> renderIsResponding r \<Longrightarrow> batch \<noteq> [] \<Longrightarrow>
   step (Settled r batch) m = m\<lparr>sub := (sub m)\<lparr>displayed := displayed (sub m) @ [batch]\<rparr>\<rparr>"
  by (simp add: step_def onComplete_def Let_def start_guard notePass_def)

lemma stuck:
  "suspended m = [] \<Longrightarrow> toolSubmissionInProgress (sub m) \<Longrightarrow>
   suspended (step a m) = [] \<and> toolSubmissionInProgress (sub (step a m)) \<and>
   started (step a m) = started m"
  by (cases a)
     (auto simp: step_def onComplete_def Let_def start_guard notePass_simps split: list.splits)

text \<open>
  The \<^verbatim>\<open>finally\<close> block, for its part, does release the lock and hands a queued batch to a
  timer.
\<close>

lemma handleCompletedTools_finally_releases:
  "\<not> toolSubmissionInProgress (handleCompletedTools_finally r st)
   \<and> pendingToolSubmission (handleCompletedTools_finally r st) = None
   \<and> timers (handleCompletedTools_finally r st) =
       timers st @ (case pendingToolSubmission st of None \<Rightarrow> [] | Some p \<Rightarrow> [(r, p)])"
  by (simp add: handleCompletedTools_finally_def Let_def split: option.splits)

lemma stuck_run:
  "suspended m = [] \<Longrightarrow> toolSubmissionInProgress (sub m) \<Longrightarrow>
   suspended (run as m) = [] \<and> toolSubmissionInProgress (sub (run as m)) \<and>
   started (run as m) = started m"
proof (induction as arbitrary: m)
  case Nil then show ?case by simp
next
  case (Cons a as)
  from stuck[OF Cons.prems, of a] Cons.IH[of "step a m"] show ?case by simp
qed

lemma started_held: "mset (started m) \<subseteq># held m"
  by (simp add: held_def)

lemma lockInv_initial: "lockInv initialMachine"
  by (simp add: lockInv_def initialMachine_def)

lemma held_initial: "held initialMachine = {#}"
  by (simp add: held_def initialMachine_def initialSubmission_def)

text \<open>
  C2, as the claim states it, fails: a batch is dropped without any newer batch taking
  its place. The batch \<open>c1\<close> arrives while no pass is in progress, through a closure that
  holds \<^verbatim>\<open>isResponding = true\<close>; \<open>onComplete\<close> shows it and calls \<open>handleCompletedTools\<close>, whose
  guard returns at once. No pass was begun for it, and it is neither in the pending slot
  nor waiting for a timer; no later step can bring it back.
\<close>

theorem settled_batch_dropped_while_responding:
  "\<not> toolSubmissionInProgress (sub initialMachine)
   \<and> arrived [Settled respondingRender [sampleCall ''c1'' CallSuccess]] =
       [[sampleCall ''c1'' CallSuccess]]
   \<and> held (run [Settled respondingRender [sampleCall ''c1'' CallSuccess]] initialMachine) = {#}
   \<and> suspended (run [Settled respondingRender [sampleCall ''c1'' CallSuccess]] initialMachine) = []
   \<and> displayed (sub (run [Settled respondingRender [sampleCall ''c1'' CallSuccess]]
        initialMachine)) = [[sampleCall ''c1'' CallSuccess]]"
  by (simp add: step_def onComplete_def handleCompletedTools_start_def initialMachine_def
      initialSubmission_def respondingRender_def sampleCall_def held_def notePass_def Let_def)

text \<open>
  C2, amended. Along every sequence of steps from the initial state:
  \<^item> at most one submission pass is suspended at its continuation, and while one is, the
    lock is set and no step begins a pass;
  \<^item> the batches for which a pass was begun are, counted with multiplicity, among the
    non-empty batches that arrived: no batch is processed twice;
  \<^item> a batch that arrives while the lock is set is shown and put into the pending slot,
    in place of whatever the slot held, and nothing else happens;
  \<^item> a batch that arrives while the lock is free, through a closure that holds
    \<^verbatim>\<open>isResponding = true\<close>, is shown and otherwise passed over: it is not queued.
  Whether a queued batch is processed in the end is not stated here (see C3).
\<close>

theorem submission_serialised:
  "length (suspended (run acts initialMachine)) \<le> 1
   \<and> (suspended (run acts initialMachine) = [] \<or>
       toolSubmissionInProgress (sub (run acts initialMachine)) \<and>
       started (step a (run acts initialMachine)) = started (run acts initialMachine))
   \<and> mset (started (run acts initialMachine)) \<subseteq># mset (arrived acts)
   \<and> (toolSubmissionInProgress (sub m) \<and> batch \<noteq> [] \<longrightarrow>
        step (Settled r batch) m =
          m\<lparr>sub := (sub m)\<lparr>displayed := displayed (sub m) @ [batch],
                            pendingToolSubmission := Some batch\<rparr>\<rparr>)
   \<and> (\<not> toolSubmissionInProgress (sub m) \<and> renderIsResponding r \<and> batch \<noteq> [] \<longrightarrow>
        step (Settled r batch) m =
          m\<lparr>sub := (sub m)\<lparr>displayed := displayed (sub m) @ [batch]\<rparr>\<rparr>)"
proof -
  let ?m = "run acts initialMachine"
  have inv: "lockInv ?m"
    by (rule lockInv_run) (rule lockInv_initial)
  have a: "length (suspended ?m) \<le> 1"
    using inv by (simp add: lockInv_def)
  have b: "suspended ?m = [] \<or>
      toolSubmissionInProgress (sub ?m) \<and> started (step a ?m) = started ?m"
    using inv started_locked [of ?m a] by (auto simp: lockInv_def)
  have "mset (started ?m) \<subseteq># held ?m"
    by (rule started_held)
  also have "\<dots> \<subseteq># held initialMachine + mset (arrived acts)"
    by (rule held_run)
  finally have c: "mset (started ?m) \<subseteq># mset (arrived acts)"
    by (simp add: held_initial)
  from a b c show ?thesis
    by (simp add: settled_queued settled_responding)
qed

theorem submission_serialised_witness:
  "toolSubmissionInProgress (sub (run
       [Settled idleRender [sampleCall ''c1'' CallSuccess],
        Settled idleRender [sampleCall ''c2'' CallSuccess]] initialMachine))
   \<and> pendingToolSubmission (sub (run
       [Settled idleRender [sampleCall ''c1'' CallSuccess],
        Settled idleRender [sampleCall ''c2'' CallSuccess],
        Settled idleRender [sampleCall ''c3'' CallSuccess]] initialMachine))
     = Some [sampleCall ''c3'' CallSuccess]
   \<and> started (run
       [Settled idleRender [sampleCall ''c1'' CallSuccess],
        Settled idleRender [sampleCall ''c2'' CallSuccess],
        Settled idleRender [sampleCall ''c3'' CallSuccess]] initialMachine)
     = [[sampleCall ''c1'' CallSuccess]]"
proof -
  let ?a1 = "Settled idleRender [sampleCall ''c1'' CallSuccess]"
  let ?a2 = "Settled idleRender [sampleCall ''c2'' CallSuccess]"
  let ?a3 = "Settled idleRender [sampleCall ''c3'' CallSuccess]"
  let ?m = "run [?a1, ?a2] initialMachine"
  have locked: "toolSubmissionInProgress (sub ?m)"
    by code_simp
  have st: "started ?m = [[sampleCall ''c1'' CallSuccess]]"
    by code_simp
  have ne: "[sampleCall ''c3'' CallSuccess] \<noteq> []"
    by simp
  from submission_serialised [of "[]" ContinuationDone ?m "[sampleCall ''c3'' CallSuccess]"
      idleRender] locked ne
  have "step ?a3 ?m =
      ?m\<lparr>sub := (sub ?m)\<lparr>displayed := displayed (sub ?m) @ [[sampleCall ''c3'' CallSuccess]],
                         pendingToolSubmission := Some [sampleCall ''c3'' CallSuccess]\<rparr>\<rparr>"
    by blast
  moreover have "run [?a1, ?a2, ?a3] initialMachine = step ?a3 ?m"
    by simp
  ultimately show ?thesis
    using locked st by simp
qed

text \<open>
  C3 does not hold of the code: the lock is released only in the \<^verbatim>\<open>finally\<close> block around
  the continuation. A pass that returns before it (no backend-targeted call, all of them
  cancelled, or the model switched after a quota error) leaves the lock set. From then on
  every batch that arrives is parked in the pending slot, no pass is suspended whose
  completion would release the lock, and no pass is begun any more (\<open>stuck_run\<close>). Here a
  batch with one cancelled call is processed, a second batch arrives, and neither the
  settling of a continuation nor a timer brings the second batch to a pass.
\<close>

theorem lock_kept_after_cancelled_batch:
  "fst (handleCompletedTools_start idleRender [sampleCall ''c1'' CallCancelled]
      initialSubmission) = Returned
   \<and> toolSubmissionInProgress (snd (handleCompletedTools_start idleRender
      [sampleCall ''c1'' CallCancelled] initialSubmission))
   \<and> suspended (run [Settled idleRender [sampleCall ''c1'' CallCancelled]] initialMachine) = []
   \<and> started (run
       [Settled idleRender [sampleCall ''c1'' CallCancelled],
        Settled idleRender [sampleCall ''c2'' CallSuccess],
        ContinuationDone, TimerFired] initialMachine)
     = [[sampleCall ''c1'' CallCancelled]]
   \<and> pendingToolSubmission (sub (run
       [Settled idleRender [sampleCall ''c1'' CallCancelled],
        Settled idleRender [sampleCall ''c2'' CallSuccess],
        ContinuationDone, TimerFired] initialMachine))
     = Some [sampleCall ''c2'' CallSuccess]
   \<and> toolSubmissionInProgress (sub (run
       [Settled idleRender [sampleCall ''c1'' CallCancelled],
        Settled idleRender [sampleCall ''c2'' CallSuccess],
        ContinuationDone, TimerFired] initialMachine))"
  by code_simp

lemma start_all_cancelled:
  assumes allc: "list_all (\<lambda>tc. isClientInitiated (request tc) \<or> status tc = CallCancelled) batch"
    and g: "\<not> renderIsResponding r" "\<not> toolSubmissionInProgress st"
  shows "fst (handleCompletedTools_start r batch st) = Returned"
    and "continuations (snd (handleCompletedTools_start r batch st)) = continuations st"
    and "historyAdded (snd (handleCompletedTools_start r batch st)) =
       historyAdded st @
       (if geminiToolsOf batch = [] \<or> \<not> geminiClientPresent r then []
        else [\<lparr>contentRole = ''user'',
               contentParts = concat (map partsOf (geminiToolsOf batch))\<rparr>])"
    and "submitted (snd (handleCompletedTools_start r batch st)) =
       submitted st @
       (if clientToolsOf batch = [] then []
        else [map (\<lambda>t. callId (request t)) (clientToolsOf batch)]) @
       (if geminiToolsOf batch = [] then []
        else [map (\<lambda>t. callId (request t)) (geminiToolsOf batch)])"
proof -
  have c: "list_all (\<lambda>tc. status tc = CallCancelled) (geminiToolsOf batch)"
    using allc by (auto simp: geminiToolsOf_def list_all_iff)
  show "fst (handleCompletedTools_start r batch st) = Returned"
    using g c
    by (simp add: handleCompletedTools_start_def Let_def geminiToolsOf_def)
  show "continuations (snd (handleCompletedTools_start r batch st)) = continuations st"
    using g c
    by (simp add: handleCompletedTools_start_def Let_def geminiToolsOf_def
        markToolsAsSubmitted_def addHistory_def)
  show "historyAdded (snd (handleCompletedTools_start r batch st)) =
       historyAdded st @
       (if geminiToolsOf batch = [] \<or> \<not> geminiClientPresent r then []
        else [\<lparr>contentRole = ''user'',
               contentParts = concat (map partsOf (geminiToolsOf batch))\<rparr>])"
    using g c
    by (simp add: handleCompletedTools_start_def Let_def geminiToolsOf_def
        markToolsAsSubmitted_def addHistory_def)
  show "submitted (snd (handleCompletedTools_start r batch st)) =
       submitted st @
       (if clientToolsOf batch = [] then []
        else [map (\<lambda>t. callId (request t)) (clientToolsOf batch)]) @
       (if geminiToolsOf batch = [] then []
        else [map (\<lambda>t. callId (request t)) (geminiToolsOf batch)])"
    using g c
    by (simp add: handleCompletedTools_start_def Let_def geminiToolsOf_def clientToolsOf_def
        markToolsAsSubmitted_def addHistory_def)
qed

lemma step_settled_all_cancelled:
  assumes allc: "list_all (\<lambda>tc. isClientInitiated (request tc) \<or> status tc = CallCancelled) batch"
  shows "continuations (sub (step (Settled r batch) m)) = continuations (sub m)
       \<and> suspended (step (Settled r batch) m) = suspended m"
proof (cases "batch = [] \<or> toolSubmissionInProgress (sub m)")
  case True
  then show ?thesis by (auto simp: step_def onComplete_def Let_def)
next
  case False
  let ?s1 = "sub m\<lparr>displayed := displayed (sub m) @ [batch]\<rparr>"
  show ?thesis
  proof (cases "renderIsResponding r")
    case True
    with False show ?thesis
      by (simp add: step_def onComplete_def Let_def start_guard notePass_def)
  next
    case nr: False
    have g2: "\<not> toolSubmissionInProgress ?s1" using False by simp
    obtain out st where eq: "handleCompletedTools_start r batch ?s1 = (out, st)" by force
    from start_all_cancelled(1,2)[OF allc nr g2] eq
    have "out = Returned" "continuations st = continuations (sub m)" by simp_all
    with False eq show ?thesis
      by (simp add: step_def onComplete_def Let_def notePass_def)
  qed
qed

text \<open>
  C6, as the claim states it, fails: not every settled batch is taken up by a pass. The
  batch \<open>c1\<close>, whose only call is backend-targeted and cancelled, arrives through a closure
  that holds \<^verbatim>\<open>isResponding = true\<close>; the guard of \<open>handleCompletedTools\<close> returns at once,
  and neither are the response parts of the call appended to the conversation history
  nor is the call marked as submitted.
\<close>

theorem all_cancelled_batch_passed_over:
  "list_all (\<lambda>tc. isClientInitiated (request tc) \<or> status tc = CallCancelled)
     [sampleCall ''c1'' CallCancelled]
   \<and> responseParts (sampleCall ''c1'' CallCancelled) =
       Some [JObj [(''functionResponse'', JObj [(''id'', JStr ''c1'')])]]
   \<and> \<not> toolSubmissionInProgress (sub initialMachine)
   \<and> historyAdded (sub (run [Settled respondingRender [sampleCall ''c1'' CallCancelled]]
        initialMachine)) = []
   \<and> submitted (sub (run [Settled respondingRender [sampleCall ''c1'' CallCancelled]]
        initialMachine)) = []
   \<and> continuations (sub (run [Settled respondingRender [sampleCall ''c1'' CallCancelled]]
        initialMachine)) = []"
  by (simp add: step_def onComplete_def handleCompletedTools_start_def initialMachine_def
      initialSubmission_def respondingRender_def sampleCall_def notePass_def Let_def)

text \<open>
  C6, amended. For every settled batch in which every backend-targeted call has status
  cancelled, no continuation is issued and no pass is left waiting for one, whether the
  batch is handed to \<open>handleCompletedTools\<close> directly or arrives through \<open>onComplete\<close>. When
  the guard refuses the pass (the hook is responding or a pass is in progress), the pass
  changes nothing. When a pass is begun, it returns before any continuation; if there is
  a backend-targeted call with response parts and the client is there, one \<^verbatim>\<open>user\<close> entry
  holding the response parts of these calls, in order, is appended to the conversation
  history; and the call identifiers of exactly these calls are marked as submitted in
  one call (after the client-initiated ones). When every call of the batch carries
  response parts, these calls are all the backend-targeted calls.
\<close>

theorem all_cancelled_appended_not_continued:
  assumes "list_all (\<lambda>tc. isClientInitiated (request tc) \<or> status tc = CallCancelled) batch"
  shows "fst (handleCompletedTools_start r batch st) \<noteq> Suspended
   \<and> continuations (snd (handleCompletedTools_start r batch st)) = continuations st
   \<and> continuations (sub (step (Settled r batch) m)) = continuations (sub m)
   \<and> suspended (step (Settled r batch) m) = suspended m
   \<and> (if renderIsResponding r \<or> toolSubmissionInProgress st
       then handleCompletedTools_start r batch st = (Skipped, st)
       else fst (handleCompletedTools_start r batch st) = Returned
          \<and> historyAdded (snd (handleCompletedTools_start r batch st)) =
              historyAdded st @
              (if geminiToolsOf batch = [] \<or> \<not> geminiClientPresent r then []
               else [\<lparr>contentRole = ''user'',
                      contentParts = concat (map partsOf (geminiToolsOf batch))\<rparr>])
          \<and> submitted (snd (handleCompletedTools_start r batch st)) =
              submitted st @
              (if clientToolsOf batch = [] then []
               else [map (\<lambda>t. callId (request t)) (clientToolsOf batch)]) @
              (if geminiToolsOf batch = [] then []
               else [map (\<lambda>t. callId (request t)) (geminiToolsOf batch)]))
   \<and> (if list_all (\<lambda>tc. responseParts tc \<noteq> None) batch
       then geminiToolsOf batch = filter (\<lambda>t. \<not> isClientInitiated (request t)) batch
       else True)"
proof -
  have e: "if list_all (\<lambda>tc. responseParts tc \<noteq> None) batch
       then geminiToolsOf batch = filter (\<lambda>t. \<not> isClientInitiated (request t)) batch
       else True"
    using assms
    by (auto simp: geminiToolsOf_def readyToSubmit_def list_all_iff intro!: filter_cong)
  have m: "continuations (sub (step (Settled r batch) m)) = continuations (sub m)
      \<and> suspended (step (Settled r batch) m) = suspended m"
    by (rule step_settled_all_cancelled [OF assms])
  show ?thesis
  proof (cases "renderIsResponding r \<or> toolSubmissionInProgress st")
    case True
    then have "handleCompletedTools_start r batch st = (Skipped, st)"
      by (rule start_guard)
    with True e m show ?thesis by simp
  next
    case False
    then have g: "\<not> renderIsResponding r" "\<not> toolSubmissionInProgress st"
      by simp_all
    note facts = start_all_cancelled [OF assms g]
    from False facts e m show ?thesis by simp
  qed
qed

theorem all_cancelled_appended_not_continued_witness:
  "fst (handleCompletedTools_start idleRender
     [sampleCall ''c1'' CallCancelled, sampleCall ''c2'' CallCancelled] initialSubmission)
     = Returned
   \<and> continuations (snd (handleCompletedTools_start idleRender
     [sampleCall ''c1'' CallCancelled, sampleCall ''c2'' CallCancelled] initialSubmission))
     = []
   \<and> historyAdded (snd (handleCompletedTools_start idleRender
     [sampleCall ''c1'' CallCancelled, sampleCall ''c2'' CallCancelled] initialSubmission))
     = [\<lparr>contentRole = ''user'',
         contentParts =
           [JObj [(''functionResponse'', JObj [(''id'', JStr ''c1'')])],
            JObj [(''functionResponse'', JObj [(''id'', JStr ''c2'')])]]\<rparr>]
   \<and> submitted (snd (handleCompletedTools_start idleRender
     [sampleCall ''c1'' CallCancelled, sampleCall ''c2'' CallCancelled] initialSubmission))
     = [[''c1'', ''c2'']]
   \<and> handleCompletedTools_start respondingRender
     [sampleCall ''c1'' CallCancelled, sampleCall ''c2'' CallCancelled] initialSubmission
     = (Skipped, initialSubmission)"
proof -
  let ?b = "[sampleCall ''c1'' CallCancelled, sampleCall ''c2'' CallCancelled]"
  have h1: "\<not> (renderIsResponding idleRender \<or> toolSubmissionInProgress initialSubmission)"
    by (simp add: idleRender_def initialSubmission_def)
  have h2: "renderIsResponding respondingRender \<or> toolSubmissionInProgress initialSubmission"
    by (simp add: respondingRender_def)
  have h3: "geminiClientPresent idleRender"
    by (simp add: idleRender_def)
  have h4: "list_all (\<lambda>tc. isClientInitiated (request tc) \<or> status tc = CallCancelled) ?b"
    by (simp add: sampleCall_def)
  have g: "geminiToolsOf ?b = ?b"
    by (simp add: geminiToolsOf_def readyToSubmit_def sampleCall_def)
  have cl: "clientToolsOf ?b = []"
    by (simp add: clientToolsOf_def readyToSubmit_def sampleCall_def)
  have ps: "concat (map partsOf ?b) =
      [JObj [(''functionResponse'', JObj [(''id'', JStr ''c1'')])],
       JObj [(''functionResponse'', JObj [(''id'', JStr ''c2'')])]]"
    by (simp add: partsOf_def sampleCall_def)
  have ids: "map (\<lambda>t. callId (request t)) ?b = [''c1'', ''c2'']"
    by (simp add: sampleCall_def)
  have i: "continuations initialSubmission = []" "historyAdded initialSubmission = []"
    "submitted initialSubmission = []"
    by (simp_all add: initialSubmission_def)
  from all_cancelled_appended_not_continued [OF h4, of idleRender initialSubmission]
  have a: "fst (handleCompletedTools_start idleRender ?b initialSubmission) = Returned
      \<and> continuations (snd (handleCompletedTools_start idleRender ?b initialSubmission)) = []
      \<and> historyAdded (snd (handleCompletedTools_start idleRender ?b initialSubmission)) =
          [\<lparr>contentRole = ''user'', contentParts = concat (map partsOf ?b)\<rparr>]
      \<and> submitted (snd (handleCompletedTools_start idleRender ?b initialSubmission)) =
          [[''c1'', ''c2'']]"
    unfolding g cl ids i using h1 h3 by simp
  from all_cancelled_appended_not_continued [OF h4, of respondingRender initialSubmission]
  have b: "handleCompletedTools_start respondingRender ?b initialSubmission =
      (Skipped, initialSubmission)"
    using h2 by simp
  from a b show ?thesis
    unfolding ps by simp
qed

section \<open>Properties of the checkpoint recorder\<close>

lemma fileTimestamp_map:
  "fileTimestamp stamp =
     map (\<lambda>c. if c = CHR '':'' then CHR ''-'' else if c = CHR ''.'' then CHR ''_'' else c) stamp"
  by (simp add: fileTimestamp_def)

lemma checkpointToolCall_written:
  assumes "checkpointToolCall env dir io tc = (notices, Some (path, rec))"
  shows "\<exists>filePath commitHash.
      map_of (args (request tc)) ''file_path'' = Some (JStr filePath) \<and> filePath \<noteq> [] \<and>
      commitHash \<noteq> [] \<and>
      rec = checkpointRecord (historyProp env) (getHistory io) (request tc) commitHash filePath \<and>
      path = pathJoin env dir
        (fileTimestamp (isoTimestamp io) @ ''-'' @ pathBasename env filePath @ ''-'' @
         name (request tc) @ ''.json'')"
proof (cases "map_of (args (request tc)) ''file_path''")
  case None
  with assms show ?thesis by (simp add: checkpointToolCall_def)
next
  case (Some fpv)
  show ?thesis
  proof (cases fpv)
    case (JStr fp)
    with assms Some show ?thesis
      by (auto simp: checkpointToolCall_def Let_def
          split: if_splits sum.splits option.splits prod.splits)
  qed (use assms Some in \<open>auto simp: checkpointToolCall_def Let_def
          split: if_splits sum.splits option.splits prod.splits\<close>)
qed

lemma checkpointLoop_written:
  "(path, rec) \<in> set (snd (checkpointLoop env dir ios i tcs)) \<Longrightarrow>
   \<exists>tc j notices. tc \<in> set tcs \<and>
     checkpointToolCall env dir (ios j) tc = (notices, Some (path, rec))"
proof (induction tcs arbitrary: i)
  case Nil
  then show ?case by simp
next
  case (Cons tc tcs)
  obtain ns w where one: "checkpointToolCall env dir (ios i) tc = (ns, w)" by force
  obtain ns' fs where more: "checkpointLoop env dir ios (Suc i) tcs = (ns', fs)" by force
  from Cons.prems one more
  have "w = Some (path, rec) \<or> (path, rec) \<in> set fs"
    by (auto split: option.splits)
  then show ?case
  proof
    assume "w = Some (path, rec)"
    with one show ?thesis by auto
  next
    assume "(path, rec) \<in> set fs"
    with more have "(path, rec) \<in> set (snd (checkpointLoop env dir ios (Suc i) tcs))"
      by simp
    from Cons.IH [OF this] show ?thesis by auto
  qed
qed

text \<open>
  C9, as the claim states it, fails: the record is built from
  \<^verbatim>\<open>await geminiClient?.getHistory()\<close>, and when this is undefined the property
  \<^verbatim>\<open>clientHistory\<close> does not appear in what is written. The record persisted then has the
  four fields \<^verbatim>\<open>history\<close>, \<^verbatim>\<open>toolCall\<close>, \<^verbatim>\<open>commitHash\<close> and \<^verbatim>\<open>filePath\<close>. The timestamp of the
  file name is the ISO timestamp with its colons and its dot replaced.
\<close>

theorem checkpoint_without_client_history:
  "isoTimestamp sampleCheckpointIo = ''2025-01-02T03:04:05.678Z''
   \<and> snd (saveRestorableToolCalls sampleCheckpointEnv
        (\<lambda>i. sampleCheckpointIo\<lparr>getHistory := None\<rparr>) [sampleEdit])
     = [(''/tmp/checkpoints/2025-01-02T03-04-05_678Z-main.ts-replace.json'',
         JObj [(''history'', JArr []),
               (''toolCall'',
                JObj [(''name'', JStr ''replace''),
                      (''args'',
                       JObj [(''file_path'', JStr ''/work/src/main.ts''),
                             (''old_string'', JStr ''a''), (''new_string'', JStr ''b'')])]),
               (''commitHash'', JStr ''abc123''),
               (''filePath'', JStr ''/work/src/main.ts'')])]"
  by code_simp

text \<open>
  C9, amended. Every file that \<open>saveRestorableToolCalls\<close> writes belongs to a restorable
  tool call of the list (a \<^verbatim>\<open>replace\<close> or \<^verbatim>\<open>write_file\<close> call awaiting approval) with a
  non-empty string \<^verbatim>\<open>file_path\<close>. Its content is the object with exactly the fields
  \<^verbatim>\<open>history\<close>, \<^verbatim>\<open>clientHistory\<close> (left out when the client's history is undefined), \<^verbatim>\<open>toolCall\<close>
  (an object with exactly \<^verbatim>\<open>name\<close> and \<^verbatim>\<open>args\<close>, those of the call), \<^verbatim>\<open>commitHash\<close> (not empty)
  and \<^verbatim>\<open>filePath\<close>, in this order. Its name, inside the checkpoint directory, is the
  timestamp, a hyphen, the base name of the file path, a hyphen, the tool's name and
  \<^verbatim>\<open>.json\<close>; the timestamp is the ISO timestamp written for a file name, with a hyphen for
  each colon and an underscore for the dot.
\<close>

theorem checkpoint_record_format:
  assumes "(path, rec) \<in> set (snd (saveRestorableToolCalls env ios toolCalls))"
  shows "\<exists>toolCall i checkpointDir filePath commitHash.
      toolCall \<in> set toolCalls \<and> restorable toolCall \<and>
      getProjectTempCheckpointsDir env = Some checkpointDir \<and>
      map_of (args (request toolCall)) ''file_path'' = Some (JStr filePath) \<and>
      filePath \<noteq> [] \<and> commitHash \<noteq> [] \<and>
      rec = JObj ([(''history'', historyProp env)] @
                  (case getHistory (ios i) of
                     None \<Rightarrow> []
                   | Some clientHistory \<Rightarrow> [(''clientHistory'', clientHistory)]) @
                  [(''toolCall'', JObj [(''name'', JStr (name (request toolCall))),
                                      (''args'', JObj (args (request toolCall)))]),
                   (''commitHash'', JStr commitHash),
                   (''filePath'', JStr filePath)]) \<and>
      path = pathJoin env checkpointDir
        (map (\<lambda>c. if c = CHR '':'' then CHR ''-'' else if c = CHR ''.'' then CHR ''_'' else c)
           (isoTimestamp (ios i)) @
         ''-'' @ pathBasename env filePath @ ''-'' @ name (request toolCall) @ ''.json'')"
proof -
  from assms obtain dir where
    dir: "getProjectTempCheckpointsDir env = Some dir"
    and loop: "(path, rec) \<in> set (snd (checkpointLoop env dir ios 0 (filter restorable toolCalls)))"
    by (auto simp: saveRestorableToolCalls_def Let_def
        split: if_splits option.splits mkdir_result.splits)
  from checkpointLoop_written [OF loop] obtain tc j notices where
    tc: "tc \<in> set (filter restorable toolCalls)"
    and one: "checkpointToolCall env dir (ios j) tc = (notices, Some (path, rec))"
    by blast
  from checkpointToolCall_written [OF one] obtain filePath commitHash where
    w: "map_of (args (request tc)) ''file_path'' = Some (JStr filePath)" "filePath \<noteq> []"
      "commitHash \<noteq> []"
      "rec = checkpointRecord (historyProp env) (getHistory (ios j)) (request tc) commitHash
         filePath"
      "path = pathJoin env dir
        (fileTimestamp (isoTimestamp (ios j)) @ ''-'' @ pathBasename env filePath @ ''-'' @
         name (request tc) @ ''.json'')"
    by blast
  have r: "rec = JObj ([(''history'', historyProp env)] @
                  (case getHistory (ios j) of
                     None \<Rightarrow> []
                   | Some clientHistory \<Rightarrow> [(''clientHistory'', clientHistory)]) @
                  [(''toolCall'', JObj [(''name'', JStr (name (request tc))),
                                      (''args'', JObj (args (request tc)))]),
                   (''commitHash'', JStr commitHash),
                   (''filePath'', JStr filePath)])"
    using w(4) by (simp add: checkpointRecord_def)
  from tc have "tc \<in> set toolCalls" "restorable tc" by simp_all
  with dir w(1,2,3) r w(5) show ?thesis
    unfolding fileTimestamp_map by blast
qed

theorem checkpoint_record_format_witness:
  "snd (saveRestorableToolCalls sampleCheckpointEnv (\<lambda>i. sampleCheckpointIo)
      [sampleEdit, sampleCall ''c1'' CallSuccess])
   = [(''/tmp/checkpoints/2025-01-02T03-04-05_678Z-main.ts-replace.json'',
       JObj [(''history'', JArr []), (''clientHistory'', JArr []),
             (''toolCall'',
              JObj [(''name'', JStr ''replace''),
                    (''args'',
                     JObj [(''file_path'', JStr ''/work/src/main.ts''),
                           (''old_string'', JStr ''a''), (''new_string'', JStr ''b'')])]),
             (''commitHash'', JStr ''abc123''),
             (''filePath'', JStr ''/work/src/main.ts'')])]
   \<and> getProjectTempCheckpointsDir sampleCheckpointEnv = Some ''/tmp/checkpoints''"
proof -
  let ?p = "''/tmp/checkpoints/2025-01-02T03-04-05_678Z-main.ts-replace.json''"
  let ?r = "JObj [(''history'', JArr []), (''clientHistory'', JArr []),
             (''toolCall'',
              JObj [(''name'', JStr ''replace''),
                    (''args'',
                     JObj [(''file_path'', JStr ''/work/src/main.ts''),
                           (''old_string'', JStr ''a''), (''new_string'', JStr ''b'')])]),
             (''commitHash'', JStr ''abc123''),
             (''filePath'', JStr ''/work/src/main.ts'')]"
  have run: "snd (saveRestorableToolCalls sampleCheckpointEnv (\<lambda>i. sampleCheckpointIo)
      [sampleEdit, sampleCall ''c1'' CallSuccess]) = [(?p, ?r)]"
    by code_simp
  have mem: "(?p, ?r) \<in> set (snd (saveRestorableToolCalls sampleCheckpointEnv
      (\<lambda>i. sampleCheckpointIo) [sampleEdit, sampleCall ''c1'' CallSuccess]))"
    unfolding run by simp
  from checkpoint_record_format [OF mem]
  obtain checkpointDir where "getProjectTempCheckpointsDir sampleCheckpointEnv = Some checkpointDir"
    by blast
  then have "getProjectTempCheckpointsDir sampleCheckpointEnv = Some ''/tmp/checkpoints''"
    by (simp add: sampleCheckpointEnv_def)
  with run show ?thesis by simp
qed

end
